theory Spec2Isabelle
  imports Complex_Main "HOL-Library.Code_Target_Nat" "HOL-Library.Log_Nat"
begin

section \<open>Python values shared by the models\<close>

text \<open>
  The exceptions the modelled functions raise. A function that can raise returns
  \<open>error + 'a\<close>, with \<open>Inl\<close> carrying the exception.
\<close>

datatype error =
    ValueError
  | TypeError
  | KeyError
  | ZeroDivisionError
  | OverflowError
  | AttributeError
  | KeyboardInterrupt
  | Exception

section \<open>Python numbers\<close>

text \<open>
  A Python float is an IEEE 754 binary64 number: a finite number \<open>m * 2 ^ p\<close> with
  \<open>\<bar>m\<bar> < 2 ^ 53\<close> and \<open>- 1074 \<le> p \<le> 971\<close>, an infinity or a NaN. An operation on floats
  computes the exact result and rounds it to the nearest float, a tie going to the even
  significand and a result that reaches \<open>2 ^ 1024\<close> to an infinity. The exact numbers are
  the rationals; \<open>Finite q\<close> is the float of value \<open>q\<close>, and what the operations return
  is always rounded. The two zeros are one value and the NaNs are one value: Python raises
  for a zero divisor of either sign, and the modelled functions do not look at the sign
  of a zero otherwise.
\<close>

datatype pyfloat = Finite rat | PosInf | NegInf | NaN

text \<open>Rounding to the nearest integer, a tie going to the even one.\<close>

definition round_half_even :: "rat \<Rightarrow> int" where
  "round_half_even q =
     (let f = \<lfloor>q\<rfloor>; r = q - of_int f in
      if r < 1 / 2 then f
      else if r > 1 / 2 then f + 1
      else if even f then f else f + 1)"

definition pow2 :: "int \<Rightarrow> rat" where
  "pow2 k = (if 0 \<le> k then 2 ^ nat k else 1 / 2 ^ nat (- k))"

text \<open>
  The binary exponent of a positive number: \<open>2 ^ ilog2 x \<le> x < 2 ^ (ilog2 x + 1)\<close>. The
  bit lengths of numerator and denominator give it up to one.
\<close>

definition ilog2 :: "rat \<Rightarrow> int" where
  "ilog2 x = (let k = bitlen (fst (quotient_of x)) - bitlen (snd (quotient_of x))
              in if pow2 k \<le> x then k else k - 1)"

text \<open>
  The floats around a positive \<open>x\<close> are the multiples of its quantum: 53 significant bits
  from the binary exponent of \<open>x\<close> down, the exponent being at least \<open>- 1022\<close> (below
  that the floats are subnormal, all multiples of \<open>2 ^ - 1074\<close>). The rounded significand
  is at most \<open>2 ^ 53\<close>, and the rounded value reaches \<open>2 ^ 1024\<close> when the exponent is
  above 1023, or is 1023 with the significand rounded up to \<open>2 ^ 53\<close>.
\<close>

definition quantum :: "rat \<Rightarrow> rat" where
  "quantum x = pow2 (max (ilog2 x) (- 1022) - 52)"

definition round_pos :: "rat \<Rightarrow> pyfloat" where
  "round_pos x =
     (let m = round_half_even (x / quantum x)
      in if 1023 < ilog2 x \<or> (ilog2 x = 1023 \<and> m = 2 ^ 53) then PosInf
         else Finite (of_int m * quantum x))"

fun fneg :: "pyfloat \<Rightarrow> pyfloat" where
  "fneg (Finite a) = Finite (- a)"
| "fneg PosInf = NegInf"
| "fneg NegInf = PosInf"
| "fneg NaN = NaN"

definition round64 :: "rat \<Rightarrow> pyfloat" where
  "round64 x = (if x = 0 then Finite 0 else if 0 < x then round_pos x else fneg (round_pos (- x)))"

text \<open>The operations of IEEE 754 on floats.\<close>

fun fpositive :: "pyfloat \<Rightarrow> bool" where
  "fpositive (Finite a) = (0 < a)"
| "fpositive PosInf = True"
| "fpositive NegInf = False"
| "fpositive NaN = False"

fun fadd :: "pyfloat \<Rightarrow> pyfloat \<Rightarrow> pyfloat" where
  "fadd (Finite a) (Finite b) = round64 (a + b)"
| "fadd NaN y = NaN"
| "fadd x NaN = NaN"
| "fadd PosInf NegInf = NaN"
| "fadd NegInf PosInf = NaN"
| "fadd PosInf y = PosInf"
| "fadd NegInf y = NegInf"
| "fadd (Finite a) y = y"

definition fsub :: "pyfloat \<Rightarrow> pyfloat \<Rightarrow> pyfloat" where
  "fsub x y = fadd x (fneg y)"

definition fmul :: "pyfloat \<Rightarrow> pyfloat \<Rightarrow> pyfloat" where
  "fmul x y =
     (if x = NaN \<or> y = NaN then NaN
      else case (x, y) of
             (Finite a, Finite b) \<Rightarrow> round64 (a * b)
           | _ \<Rightarrow> if x = Finite 0 \<or> y = Finite 0 then NaN
                  else if fpositive x = fpositive y then PosInf else NegInf)"

text \<open>
  The division of IEEE 754, a zero divisor being \<open>+0.0\<close>. Python does not get there: it
  raises for a zero divisor. numpy divides, and the one divisor of the modelled code that
  can be zero is \<open>float(0)\<close>, which is \<open>+0.0\<close>.
\<close>

definition fdiv :: "pyfloat \<Rightarrow> pyfloat \<Rightarrow> pyfloat" where
  "fdiv x y =
     (if x = NaN \<or> y = NaN then NaN
      else case (x, y) of
             (Finite a, Finite b) \<Rightarrow>
               if b = 0 then (if a = 0 then NaN else if 0 < a then PosInf else NegInf)
               else round64 (a / b)
           | (Finite a, _) \<Rightarrow> Finite 0
           | (_, Finite b) \<Rightarrow> if fpositive x = (0 \<le> b) then PosInf else NegInf
           | _ \<Rightarrow> NaN)"

text \<open>The comparison \<open><\<close>: false whenever an operand is a NaN.\<close>

fun flt :: "pyfloat \<Rightarrow> pyfloat \<Rightarrow> bool" where
  "flt (Finite a) (Finite b) = (a < b)"
| "flt NaN y = False"
| "flt x NaN = False"
| "flt x NegInf = False"
| "flt PosInf y = False"
| "flt NegInf y = True"
| "flt (Finite a) PosInf = True"

text \<open>
  \<open>float(i)\<close> for a Python integer, and every implicit conversion of an integer operand
  of a float operation: the nearest float, OverflowError when that is not finite.
  \<open>i / j\<close> for two integers is the exact quotient rounded once, ZeroDivisionError for
  \<open>j = 0\<close> and OverflowError when the rounded quotient is not finite.
\<close>

definition finite_or_overflow :: "pyfloat \<Rightarrow> error + pyfloat" where
  "finite_or_overflow x = (case x of Finite r \<Rightarrow> Inr (Finite r) | _ \<Rightarrow> Inl OverflowError)"

definition float_of_int :: "int \<Rightarrow> error + pyfloat" where
  "float_of_int i = finite_or_overflow (round64 (of_int i))"

definition int_truediv :: "int \<Rightarrow> int \<Rightarrow> error + pyfloat" where
  "int_truediv i j =
     (if j = 0 then Inl ZeroDivisionError else finite_or_overflow (round64 (of_int i / of_int j)))"

text \<open>
  The scalars of the modelled functions are Python integers, which are unbounded, and
  floats. An operation on two integers is exact (\<open>/\<close> apart); when an operand is a float
  the other is converted first, the left one before the right one, and the operation is
  the one on floats. A comparison of an integer with a float compares the exact values,
  with no conversion.
\<close>

datatype scalar = PyLong int | PyFloat pyfloat

text \<open>Evaluation in sequence: the first exception ends it.\<close>

definition py_then :: "error + 'a \<Rightarrow> ('a \<Rightarrow> error + 'b) \<Rightarrow> error + 'b" where
  "py_then r f = (case r of Inl e \<Rightarrow> Inl e | Inr a \<Rightarrow> f a)"

definition to_float :: "scalar \<Rightarrow> error + pyfloat" where
  "to_float a = (case a of PyLong i \<Rightarrow> float_of_int i | PyFloat x \<Rightarrow> Inr x)"

definition float_op :: "(pyfloat \<Rightarrow> pyfloat \<Rightarrow> error + pyfloat) \<Rightarrow> scalar \<Rightarrow> scalar \<Rightarrow> error + scalar" where
  "float_op f a b =
     (case to_float a of
        Inl e \<Rightarrow> Inl e
      | Inr x \<Rightarrow>
          (case to_float b of
             Inl e \<Rightarrow> Inl e
           | Inr y \<Rightarrow> (case f x y of Inl e \<Rightarrow> Inl e | Inr z \<Rightarrow> Inr (PyFloat z))))"

definition py_add :: "scalar \<Rightarrow> scalar \<Rightarrow> error + scalar" where
  "py_add a b =
     (case (a, b) of
        (PyLong i, PyLong j) \<Rightarrow> Inr (PyLong (i + j))
      | _ \<Rightarrow> float_op (\<lambda>x y. Inr (fadd x y)) a b)"

definition py_sub :: "scalar \<Rightarrow> scalar \<Rightarrow> error + scalar" where
  "py_sub a b =
     (case (a, b) of
        (PyLong i, PyLong j) \<Rightarrow> Inr (PyLong (i - j))
      | _ \<Rightarrow> float_op (\<lambda>x y. Inr (fsub x y)) a b)"

definition py_mul :: "scalar \<Rightarrow> scalar \<Rightarrow> error + scalar" where
  "py_mul a b =
     (case (a, b) of
        (PyLong i, PyLong j) \<Rightarrow> Inr (PyLong (i * j))
      | _ \<Rightarrow> float_op (\<lambda>x y. Inr (fmul x y)) a b)"

definition float_truediv :: "pyfloat \<Rightarrow> pyfloat \<Rightarrow> error + pyfloat" where
  "float_truediv x y = (if y = Finite 0 then Inl ZeroDivisionError else Inr (fdiv x y))"

definition py_truediv :: "scalar \<Rightarrow> scalar \<Rightarrow> error + scalar" where
  "py_truediv a b =
     (case (a, b) of
        (PyLong i, PyLong j) \<Rightarrow> (case int_truediv i j of Inl e \<Rightarrow> Inl e | Inr z \<Rightarrow> Inr (PyFloat z))
      | _ \<Rightarrow> float_op float_truediv a b)"

definition exact :: "scalar \<Rightarrow> pyfloat" where
  "exact a = (case a of PyLong i \<Rightarrow> Finite (of_int i) | PyFloat x \<Rightarrow> x)"

definition py_lt :: "scalar \<Rightarrow> scalar \<Rightarrow> bool" where
  "py_lt a b = flt (exact a) (exact b)"

definition py_gt :: "scalar \<Rightarrow> scalar \<Rightarrow> bool" where
  "py_gt a b = flt (exact b) (exact a)"

section \<open>yann.utils: counter\<close>

text \<open>
  \<^verbatim>\<open>
  def counter(start=0, end=None, step=1):
    current = start
    while end is None or (end and (current < end)):
      yield current
      current += step
  \<close>
  A generator is its suspended state together with a \<open>next\<close> function: \<open>Some (x, c')\<close>
  when it yields \<open>x\<close> and is left in state \<open>c'\<close>, \<open>None\<close> when it is exhausted
  (StopIteration). The state keeps the value the loop test will see on the next call;
  \<open>end\<close> is a keyword of Isabelle, so the field is \<open>end'\<close>. The test \<open>end and ...\<close> is
  Python truthiness of an integer: false for \<open>0\<close>.
\<close>

record counter_state =
  current :: int
  end' :: "int option"
  step :: int

definition counter :: "int \<Rightarrow> int option \<Rightarrow> int \<Rightarrow> counter_state" where
  "counter start e stp = \<lparr>current = start, end' = e, step = stp\<rparr>"

definition counter_continues :: "counter_state \<Rightarrow> bool" where
  "counter_continues c =
     (case end' c of None \<Rightarrow> True | Some e \<Rightarrow> e \<noteq> 0 \<and> current c < e)"

definition counter_next :: "counter_state \<Rightarrow> (int \<times> counter_state) option" where
  "counter_next c =
     (if counter_continues c
      then Some (current c, c\<lparr>current := current c + step c\<rparr>)
      else None)"

text \<open>The first \<open>n\<close> values the generator yields (fewer when it is exhausted before).\<close>

fun counter_take :: "nat \<Rightarrow> counter_state \<Rightarrow> int list" where
  "counter_take 0 c = []"
| "counter_take (Suc n) c =
     (case counter_next c of None \<Rightarrow> [] | Some (x, c') \<Rightarrow> x # counter_take n c')"

text \<open>
  Running the generator to exhaustion, as \<open>list(counter(...))\<close> does: \<open>Some xs\<close> when it
  stops within \<open>fuel\<close> calls of \<open>next\<close> after yielding \<open>xs\<close>, \<open>None\<close> when it is still
  yielding.
\<close>

fun counter_drain :: "nat \<Rightarrow> counter_state \<Rightarrow> int list option" where
  "counter_drain 0 c = None"
| "counter_drain (Suc n) c =
     (case counter_next c of
        None \<Rightarrow> Some []
      | Some (x, c') \<Rightarrow> map_option ((#) x) (counter_drain n c'))"

section \<open>yann.metrics: Meter\<close>

text \<open>
  \<^verbatim>\<open>
  class Meter:
    def __init__(self):
      self.reset()

    def reset(self):
      self.max = None
      self.min = None
      self.sum = 0
      self.count = 0

    def update(self, val):
      if self.max is None or val > self.max:
        self.max = val
      if self.min is None or val < self.min:
        self.min = val
      self.sum += val
      self.count += 1

    def average(self):
      return self.sum / self.count
  \<close>
  An observation is a scalar, a Python integer or a float. The fields \<open>max\<close>, \<open>min\<close>
  and \<open>sum\<close> are primed, the plain names being constants of HOL. \<open>self.sum += val\<close>
  raises OverflowError when one of the two is a float and the other an integer too large
  for a float: \<open>update\<close> returns the exception, if any, with the meter as the statements
  before have left it.
\<close>

record Meter =
  max' :: "scalar option"
  min' :: "scalar option"
  sum' :: scalar
  count :: int

definition reset :: "Meter \<Rightarrow> Meter" where
  "reset m = m\<lparr>max' := None, min' := None, sum' := PyLong 0, count := 0\<rparr>"

definition Meter_init :: Meter where
  "Meter_init = reset \<lparr>max' = None, min' = None, sum' = PyLong 0, count = 0\<rparr>"

definition update :: "Meter \<Rightarrow> scalar \<Rightarrow> (error + unit) \<times> Meter" where
  "update m val =
     (let m1 = (case max' m of
                  None \<Rightarrow> m\<lparr>max' := Some val\<rparr>
                | Some a \<Rightarrow> if py_gt val a then m\<lparr>max' := Some val\<rparr> else m);
          m2 = (case min' m1 of
                  None \<Rightarrow> m1\<lparr>min' := Some val\<rparr>
                | Some a \<Rightarrow> if py_lt val a then m1\<lparr>min' := Some val\<rparr> else m1)
      in case py_add (sum' m2) val of
           Inl e \<Rightarrow> (Inl e, m2)
         | Inr s \<Rightarrow> (Inr (), m2\<lparr>sum' := s, count := count m2 + 1\<rparr>))"

definition average :: "Meter \<Rightarrow> error + scalar" where
  "average m = py_truediv (sum' m) (PyLong (count m))"

text \<open>
  Folding a sequence of observations into a meter, one \<open>update\<close> after the other, up to
  the first that raises.
\<close>

fun update_all :: "Meter \<Rightarrow> scalar list \<Rightarrow> (error + unit) \<times> Meter" where
  "update_all m [] = (Inr (), m)"
| "update_all m (val # vals) =
     (case update m val of
        (Inl e, m') \<Rightarrow> (Inl e, m')
      | (Inr u, m') \<Rightarrow> update_all m' vals)"

text \<open>
  The sum as the updates accumulate it: the observations are added one by one, from the
  left, to the sum so far, each addition being Python's.
\<close>

fun accumulate :: "scalar \<Rightarrow> scalar list \<Rightarrow> error + scalar" where
  "accumulate s [] = Inr s"
| "accumulate s (val # vals) =
     (case py_add s val of Inl e \<Rightarrow> Inl e | Inr s' \<Rightarrow> accumulate s' vals)"

section \<open>yann.metrics: exp_moving_avg\<close>

text \<open>
  \<^verbatim>\<open>
  def exp_moving_avg(cur, prev=None, alpha=.05, steps=None):
    """exponential moving average"""
    if prev is None:
      return cur
    avg = alpha * cur + prev * (1 - alpha)
    return avg / (1 - alpha ** steps) if steps else avg
  \<close>
  The last line is a conditional expression: \<open>(avg / (1 - alpha ** steps)) if steps else avg\<close>,
  and \<open>if steps\<close> is truthiness, false for an absent count and for \<open>0\<close>. \<open>cur\<close>, \<open>prev\<close>
  and \<open>alpha\<close> are scalars, the step count is a Python integer.

  \<open>**\<close> on two integers with an exponent that is not negative is exact. Otherwise it is
  the power of floats, both operands converted first: \<open>1.0\<close> for the exponent \<open>0\<close>, and
  else what the interpreter makes of the C library's \<open>pow\<close>, which IEEE 754 does not pin
  down: a parameter \<open>fpow\<close> of the model, free to raise (OverflowError for a result too
  large, ZeroDivisionError for a zero base with a negative exponent).
\<close>

type_synonym float_pow = "pyfloat \<Rightarrow> pyfloat \<Rightarrow> error + pyfloat"

definition float_power :: "float_pow \<Rightarrow> pyfloat \<Rightarrow> pyfloat \<Rightarrow> error + pyfloat" where
  "float_power fpow x y = (if y = Finite 0 then Inr (Finite 1) else fpow x y)"

definition py_pow :: "float_pow \<Rightarrow> scalar \<Rightarrow> scalar \<Rightarrow> error + scalar" where
  "py_pow fpow a b =
     (case (a, b) of
        (PyLong i, PyLong n) \<Rightarrow>
          if 0 \<le> n then Inr (PyLong (i ^ nat n)) else float_op (float_power fpow) a b
      | _ \<Rightarrow> float_op (float_power fpow) a b)"

text \<open>\<open>alpha * cur + prev * (1 - alpha)\<close>, the operands evaluated from left to right.\<close>

definition blended :: "scalar \<Rightarrow> scalar \<Rightarrow> scalar \<Rightarrow> error + scalar" where
  "blended alpha cur prev =
     py_then (py_mul alpha cur) (\<lambda>a.
     py_then (py_sub (PyLong 1) alpha) (\<lambda>b.
     py_then (py_mul prev b) (\<lambda>c.
     py_add a c)))"

text \<open>\<open>avg / (1 - alpha ** steps)\<close>.\<close>

definition bias_corrected :: "float_pow \<Rightarrow> scalar \<Rightarrow> scalar \<Rightarrow> int \<Rightarrow> error + scalar" where
  "bias_corrected fpow avg alpha steps =
     py_then (py_pow fpow alpha (PyLong steps)) (\<lambda>q.
     py_then (py_sub (PyLong 1) q) (\<lambda>d.
     py_truediv avg d))"

definition exp_moving_avg ::
  "float_pow \<Rightarrow> scalar \<Rightarrow> scalar option \<Rightarrow> scalar \<Rightarrow> int option \<Rightarrow> error + scalar" where
  "exp_moving_avg fpow cur prev alpha steps =
     (case prev of
        None \<Rightarrow> Inr cur
      | Some p \<Rightarrow>
          py_then (blended alpha cur p) (\<lambda>avg.
            case steps of
              None \<Rightarrow> Inr avg
            | Some n \<Rightarrow> if n \<noteq> 0 then bias_corrected fpow avg alpha n else Inr avg))"

text \<open>
  An instance of the parameter, for the examples: a C library whose \<open>pow\<close> rounds the
  exact power to the nearest float, on the integral exponents that a step count gives.
  The interpreter raises ZeroDivisionError for a zero base with a negative exponent and
  OverflowError for a result that is not finite.
\<close>

definition power_rounded :: "pyfloat \<Rightarrow> int \<Rightarrow> error + pyfloat" where
  "power_rounded x n =
     (if n = 0 then Inr (Finite 1)
      else case x of
             Finite a \<Rightarrow>
               if a = 0 \<and> n < 0 then Inl ZeroDivisionError
               else finite_or_overflow
                      (round64 (if 0 \<le> n then a ^ nat n else 1 / a ^ nat (- n)))
           | PosInf \<Rightarrow> Inr (if 0 < n then PosInf else Finite 0)
           | NegInf \<Rightarrow> Inr (if n < 0 then Finite 0 else if even n then PosInf else NegInf)
           | NaN \<Rightarrow> Inr NaN)"

definition rounding_pow :: float_pow where
  "rounding_pow x y = (case y of Finite b \<Rightarrow> power_rounded x \<lfloor>b\<rfloor> | _ \<Rightarrow> Inr NaN)"

section \<open>yann.train.supervised: the Trainer's progress and its checkpoints\<close>

text \<open>
  The part of a Trainer the run loop works on: the three progress counters, the stop flag
  \<open>_stop\<close> (\<open>stop'\<close> here), the truthiness of the optional components the loop and
  \<open>step\<close> test (\<open>training\<close> is the value of \<open>self.model.training\<close>), and the
  checkpoint files written so far.
  \<^verbatim>\<open>
  def checkpoint(self, name=None) -> Path:
    state = self.state_dict()
    path = self.paths.checkpoints / (
      f"{name}.th" if name else
      f"{timestr()}-epoch-{self.num_epochs:03d}-steps-{self.num_steps:05d}.th"
    )
    torch.save(state, str(path))
    print(f'Saved checkpoint at {path}')
    return path
  \<close>
  A file name is either the explicit name or the one derived from the counters (its
  timestamp is left out). \<open>if name\<close> is truthiness: an empty name counts as absent.
\<close>

datatype checkpoint_file = Named string | Derived int int

record Trainer =
  num_steps :: int
  num_samples :: int
  num_epochs :: int
  stop' :: bool
  callbacks :: bool
  sampler_set_epoch :: bool
  lr_scheduler :: bool
  lr_batch_step :: bool
  val_loader :: bool
  loss :: bool
  grad_scaler :: bool
  clip_grad :: bool
  training :: bool
  saved :: "checkpoint_file list"

text \<open>
  The constructor sets the three counters to zero. The components the epoch loop tests
  are given by their truthiness; the loss, the gradient scaler and the gradient clipping
  are absent, as the constructor's defaults leave them, and a new model is in training
  mode. \<open>_stop\<close> is first assigned by \<open>run\<close>, it starts as \<open>False\<close> here.
\<close>

definition Trainer_init :: "bool \<Rightarrow> bool \<Rightarrow> bool \<Rightarrow> bool \<Rightarrow> bool \<Rightarrow> Trainer" where
  "Trainer_init cbs sse lrs lbs vl =
     \<lparr>num_steps = 0, num_samples = 0, num_epochs = 0, stop' = False, callbacks = cbs,
      sampler_set_epoch = sse, lr_scheduler = lrs, lr_batch_step = lbs, val_loader = vl,
      loss = False, grad_scaler = False, clip_grad = False, training = True, saved = []\<rparr>"

definition checkpoint :: "string option \<Rightarrow> Trainer \<Rightarrow> checkpoint_file \<times> Trainer" where
  "checkpoint name t =
     (let path = (case name of
                    None \<Rightarrow> Derived (num_epochs t) (num_steps t)
                  | Some n \<Rightarrow> if n \<noteq> [] then Named n else Derived (num_epochs t) (num_steps t))
      in (path, t\<lparr>saved := saved t @ [path]\<rparr>))"

section \<open>yann.callbacks.checkpoint: Checkpoint\<close>

text \<open>
  \<^verbatim>\<open>
  class Checkpoint(Callback):
    def __init__(self, freq=1):
      self.freq = freq

    def on_epoch_end(self, epoch, loss=None, metrics=None, trainer=None):
      if epoch % self.freq == 0 :
        trainer.checkpoint()
  \<close>
  Python's \<open>%\<close> on integers is the floored remainder, as \<open>mod\<close> on \<open>int\<close> is, but it
  raises ZeroDivisionError for a zero divisor, where \<open>a mod 0 = a\<close> in HOL. The trainer
  is optional; calling \<open>checkpoint\<close> on the default \<open>None\<close> raises AttributeError.
\<close>

definition py_mod :: "int \<Rightarrow> int \<Rightarrow> error + int" where
  "py_mod a b = (if b = 0 then Inl ZeroDivisionError else Inr (a mod b))"

record Checkpoint =
  freq :: int

definition on_epoch_end :: "Checkpoint \<Rightarrow> int \<Rightarrow> Trainer option \<Rightarrow> error + Trainer option" where
  "on_epoch_end self epoch trainer =
     (case py_mod epoch (freq self) of
        Inl e \<Rightarrow> Inl e
      | Inr r \<Rightarrow>
          if r = 0
          then (case trainer of
                  None \<Rightarrow> Inl AttributeError
                | Some t \<Rightarrow> Inr (Some (snd (checkpoint None t))))
          else Inr trainer)"

text \<open>The events of the callback pipeline that the run loop and \<open>validate\<close> send.\<close>

datatype event =
    OnTrainStart
  | OnEpochStart int
  | OnStepStart int
  | OnStepError int
  | OnStepEnd int
  | OnEpochEnd int
  | OnTrainEnd
  | OnError
  | OnValidationStart
  | OnValidationBatch
  | OnValidationEnd

text \<open>
  Modelled from the spec: the base class \<open>Callback\<close> (yann/callbacks/base.py) is not among
  the sources. The specification says of Checkpoint that no other hook is implemented and
  that every other callback event is a no-op for it, so the hooks inherited from
  \<open>Callback\<close> return without an effect.
\<close>

definition Callback_hook :: "event \<Rightarrow> Trainer option \<Rightarrow> error + Trainer option" where
  "Callback_hook ev trainer = Inr trainer"

text \<open>Method resolution: Checkpoint overrides \<open>on_epoch_end\<close> and inherits the rest.\<close>

definition Checkpoint_notify :: "Checkpoint \<Rightarrow> event \<Rightarrow> Trainer option \<Rightarrow> error + Trainer option" where
  "Checkpoint_notify self ev trainer =
     (case ev of
        OnEpochEnd epoch \<Rightarrow> on_epoch_end self epoch trainer
      | _ \<Rightarrow> Callback_hook ev trainer)"

text \<open>
  A sequence of epoch-end events sent to the callback; for each event, whether it wrote a
  checkpoint. An exception ends the sequence.
\<close>

fun epoch_end_events :: "Checkpoint \<Rightarrow> int list \<Rightarrow> Trainer \<Rightarrow> error + (bool list \<times> Trainer)" where
  "epoch_end_events self [] t = Inr ([], t)"
| "epoch_end_events self (e # es) t =
     (case on_epoch_end self e (Some t) of
        Inl err \<Rightarrow> Inl err
      | Inr None \<Rightarrow> Inl AttributeError
      | Inr (Some t') \<Rightarrow>
          (case epoch_end_events self es t' of
             Inl err \<Rightarrow> Inl err
           | Inr (bs, t'') \<Rightarrow> Inr ((length (saved t') > length (saved t)) # bs, t'')))"

section \<open>yann.utils: RangeMap\<close>

text \<open>
  \<^verbatim>\<open>
  class RangeMap(dict):
    def __init__(self, items=None):
      super().__init__()
      if isinstance(items, dict):
        items = items.items()
      if items:
        for k, v in items:
          self[k] = v

    def __getitem__(self, item):
      if isinstance(item, tuple):
        return super().__getitem__(item)
      if item is not None:
        for (min, max), value in self.items():
          if min is not None and item < min:
            continue
          if max is not None and item > max:
            continue
          return value
      raise KeyError(f'Key `{item}` does not fall in any of the ranges')

    def __call__(self, item):
      return self[item]
  \<close>
  A Python dict keeps its keys in insertion order, and assigning to a key that is present
  replaces the value in place: the dict is an association list with distinct keys. A key
  is a pair \<open>(min, max)\<close> of optional bounds over a linearly ordered type of scalars. What
  is looked up is a tuple, a scalar or \<open>None\<close>.
\<close>

type_synonym 'k range = "'k option \<times> 'k option"

type_synonym ('k, 'v) RangeMap = "('k range \<times> 'v) list"

datatype 'k item = Tuple "'k range" | Scalar 'k | NoneItem

definition dict_setitem :: "('a \<times> 'b) list \<Rightarrow> 'a \<Rightarrow> 'b \<Rightarrow> ('a \<times> 'b) list" where
  "dict_setitem d k v =
     (if k \<in> fst ` set d
      then map (\<lambda>(k', v'). if k' = k then (k', v) else (k', v')) d
      else d @ [(k, v)])"

definition dict_getitem :: "('a \<times> 'b) list \<Rightarrow> 'a \<Rightarrow> error + 'b" where
  "dict_getitem d k = (case map_of d k of None \<Rightarrow> Inl KeyError | Some v \<Rightarrow> Inr v)"

definition RangeMap_init :: "('k range \<times> 'v) list \<Rightarrow> ('k, 'v) RangeMap" where
  "RangeMap_init items = foldl (\<lambda>d (k, v). dict_setitem d k v) [] items"

text \<open>
  The \<open>for\<close> loop of \<open>__getitem__\<close>: \<open>None\<close> when it ends without returning. The
  bounds \<open>min\<close> and \<open>max\<close> of the source are \<open>mn\<close> and \<open>mx\<close>.
\<close>

fun getitem_loop :: "'k::linorder \<Rightarrow> ('k, 'v) RangeMap \<Rightarrow> 'v option" where
  "getitem_loop item [] = None"
| "getitem_loop item (((mn, mx), val) # rest) =
     (if mn \<noteq> None \<and> item < the mn then getitem_loop item rest
      else if mx \<noteq> None \<and> item > the mx then getitem_loop item rest
      else Some val)"

fun getitem :: "('k::linorder, 'v) RangeMap \<Rightarrow> 'k item \<Rightarrow> error + 'v" where
  "getitem self (Tuple k) = dict_getitem self k"
| "getitem self (Scalar x) =
     (case getitem_loop x self of None \<Rightarrow> Inl KeyError | Some v \<Rightarrow> Inr v)"
| "getitem self NoneItem = Inl KeyError"


section \<open>yann.metrics: moving_average\<close>

text \<open>
  \<^verbatim>\<open>
  def moving_average(data, window=10):
    cumsum = np.cumsum(np.insert(data, 0, 0))
    return (cumsum[window:] - cumsum[:-window]) / float(window)
  \<close>
  \<open>data\<close> is the one-dimensional array numpy makes of the argument, of 64-bit integers
  or of floats; \<open>window\<close> is a Python integer. The numpy operations are written out:
  \<open>np.insert(data, 0, 0)\<close> puts a \<open>0\<close> of the element type in front, \<open>np.cumsum\<close> is
  the running total in the element type, a slice bound is clipped to the array (a
  negative one counts from the end), and the subtraction of two arrays broadcasts an
  array of length one and raises ValueError for other arrays of different lengths. The
  arithmetic of 64-bit integers wraps around, without an exception; that of floats
  rounds. The division by the float \<open>float(window)\<close> gives an array of floats: an integer
  element is converted first, and a division by zero gives an infinity or a NaN, not an
  exception.
\<close>

datatype ndarray = Int64 "int list" | Float64 "pyfloat list"

definition wrap64 :: "int \<Rightarrow> int" where
  "wrap64 x = (x + 2 ^ 63) mod 2 ^ 64 - 2 ^ 63"

definition add64 :: "int \<Rightarrow> int \<Rightarrow> int" where
  "add64 x y = wrap64 (x + y)"

definition sub64 :: "int \<Rightarrow> int \<Rightarrow> int" where
  "sub64 x y = wrap64 (x - y)"

definition float_of_int64 :: "int \<Rightarrow> pyfloat" where
  "float_of_int64 x = round64 (of_int x)"

definition np_insert_front :: "'a list \<Rightarrow> 'a \<Rightarrow> 'a list" where
  "np_insert_front arr x = x # arr"

fun running :: "('a \<Rightarrow> 'a \<Rightarrow> 'a) \<Rightarrow> 'a \<Rightarrow> 'a list \<Rightarrow> 'a list" where
  "running add acc [] = []"
| "running add acc (x # xs) = add acc x # running add (add acc x) xs"

fun np_cumsum :: "('a \<Rightarrow> 'a \<Rightarrow> 'a) \<Rightarrow> 'a list \<Rightarrow> 'a list" where
  "np_cumsum add [] = []"
| "np_cumsum add (x # xs) = x # running add x xs"

definition slice_bound :: "'a list \<Rightarrow> int \<Rightarrow> nat" where
  "slice_bound arr i =
     (let n = int (length arr) in nat (if i < 0 then max (n + i) 0 else min i n))"

definition slice_from :: "'a list \<Rightarrow> int \<Rightarrow> 'a list" where
  "slice_from arr i = drop (slice_bound arr i) arr"

definition slice_upto :: "'a list \<Rightarrow> int \<Rightarrow> 'a list" where
  "slice_upto arr i = take (slice_bound arr i) arr"

definition np_subtract :: "('a \<Rightarrow> 'a \<Rightarrow> 'a) \<Rightarrow> 'a list \<Rightarrow> 'a list \<Rightarrow> error + 'a list" where
  "np_subtract sub xs ys =
     (if length xs = length ys then Inr (map2 sub xs ys)
      else if length xs = 1 then Inr (map (\<lambda>y. sub (hd xs) y) ys)
      else if length ys = 1 then Inr (map (\<lambda>x. sub x (hd ys)) xs)
      else Inl ValueError)"

text \<open>\<open>cumsum[window:] - cumsum[:-window]\<close>, in the element type.\<close>

definition window_sums ::
  "('a \<Rightarrow> 'a \<Rightarrow> 'a) \<Rightarrow> ('a \<Rightarrow> 'a \<Rightarrow> 'a) \<Rightarrow> 'a \<Rightarrow> 'a list \<Rightarrow> int \<Rightarrow> error + 'a list" where
  "window_sums add sub zero arr window =
     (let cumsum = np_cumsum add (np_insert_front arr zero)
      in np_subtract sub (slice_from cumsum window) (slice_upto cumsum (- window)))"

definition moving_average :: "ndarray \<Rightarrow> int \<Rightarrow> error + pyfloat list" where
  "moving_average data window =
     (case data of
        Int64 arr \<Rightarrow>
          py_then (window_sums add64 sub64 0 arr window) (\<lambda>diff.
          py_then (float_of_int window) (\<lambda>w.
          Inr (map (\<lambda>x. fdiv (float_of_int64 x) w) diff)))
      | Float64 arr \<Rightarrow>
          py_then (window_sums fadd fsub (Finite 0) arr window) (\<lambda>diff.
          py_then (float_of_int window) (\<lambda>w.
          Inr (map (\<lambda>x. fdiv x w) diff))))"

text \<open>
  Following the words of the specification: the mean of the \<open>w\<close> consecutive elements
  of \<open>data\<close> that start at position \<open>i\<close>, an exact number.
\<close>

definition window_mean :: "int list \<Rightarrow> nat \<Rightarrow> nat \<Rightarrow> rat" where
  "window_mean data w i = of_int (sum_list (take w (drop i data))) / of_nat w"

text \<open>\<open>len(data)\<close>.\<close>

definition np_len :: "ndarray \<Rightarrow> nat" where
  "np_len data = (case data of Int64 arr \<Rightarrow> length arr | Float64 arr \<Rightarrow> length arr)"

section \<open>yann.utils: pretty_size\<close>

text \<open>
  \<^verbatim>\<open>
  def pretty_size(bytes):
    num = bytes
    for unit in ['bytes', 'KB', 'MB', 'GB', 'TB']:
      if num < 1024.0:
        return f'{num:3.1f} {unit}'
      num /= 1024.0
  \<close>
  A function whose loop ends without \<open>return\<close> returns \<open>None\<close>. The byte count is a
  Python integer. The first comparison is of the integer with the float \<open>1024.0\<close>; the
  division \<open>num /= 1024.0\<close> converts the integer to a float, which raises OverflowError
  for an integer too large, and from there on \<open>num\<close> is a float.

  The format \<open>3.1f\<close> is fixed-point notation with one digit after the point, rounded to
  the nearest tenth with a tie going to the even digit, padded with blanks on the left to
  three characters; an integer is converted to a float first.
\<close>

definition digit_char :: "nat \<Rightarrow> char" where
  "digit_char d = ''0123456789'' ! d"

fun str_nat :: "nat \<Rightarrow> string" where
  "str_nat n = (if n < 10 then [digit_char n] else str_nat (n div 10) @ [digit_char (n mod 10)])"

definition format_1f :: "rat \<Rightarrow> string" where
  "format_1f q =
     (let t = nat (round_half_even (\<bar>q\<bar> * 10));
          digits = str_nat (t div 10) @ ''.'' @ [digit_char (t mod 10)]
      in if q < 0 then CHR ''-'' # digits else digits)"

definition format_3_1f :: "rat \<Rightarrow> string" where
  "format_3_1f q = replicate (3 - length (format_1f q)) CHR '' '' @ format_1f q"

definition format_float_3_1f :: "pyfloat \<Rightarrow> string" where
  "format_float_3_1f x =
     (case x of
        Finite q \<Rightarrow> format_3_1f q
      | PosInf \<Rightarrow> ''inf''
      | NegInf \<Rightarrow> ''-inf''
      | NaN \<Rightarrow> ''nan'')"

definition py_format_3_1f :: "scalar \<Rightarrow> error + string" where
  "py_format_3_1f a =
     (case to_float a of Inl e \<Rightarrow> Inl e | Inr x \<Rightarrow> Inr (format_float_3_1f x))"

fun pretty_size_loop :: "scalar \<Rightarrow> string list \<Rightarrow> error + string option" where
  "pretty_size_loop num [] = Inr None"
| "pretty_size_loop num (unit # units) =
     (if py_lt num (PyFloat (Finite 1024))
      then (case py_format_3_1f num of
              Inl e \<Rightarrow> Inl e
            | Inr s \<Rightarrow> Inr (Some (s @ '' '' @ unit)))
      else (case py_truediv num (PyFloat (Finite 1024)) of
              Inl e \<Rightarrow> Inl e
            | Inr num' \<Rightarrow> pretty_size_loop num' units))"

definition pretty_size :: "int \<Rightarrow> error + string option" where
  "pretty_size bytes = pretty_size_loop (PyLong bytes) [''bytes'', ''KB'', ''MB'', ''GB'', ''TB'']"

section \<open>yann.train.supervised: Trainer.epochs\<close>

text \<open>
  \<^verbatim>\<open>
  def epochs(self, num=None):
    """
    Yields current epoch count and keeps internal epoch count
    """
    for e in counter(start=self.num_epochs, end=self.num_epochs + num):
      yield e
      self.num_epochs += 1
  \<close>
  Calling \<open>epochs\<close> only creates the generator. Its body starts at the first \<open>next\<close>:
  the arguments of \<open>counter\<close> are evaluated there, and \<open>self.num_epochs + None\<close>
  raises TypeError. A generator suspended at \<open>yield e\<close> resumes with
  \<open>self.num_epochs += 1\<close> and then asks the counter for its next value. The counter of a
  suspended generator was created with a present \<open>end\<close> and the default step \<open>1\<close>, so it
  is kept as the pair of its \<open>current\<close> and \<open>end\<close>.
\<close>

datatype epochs_gen = EpochsCreated "int option" | EpochsSuspended int int | EpochsFinished

datatype 'a pulled = Yield 'a | StopIteration | Raise error

definition epochs :: "int option \<Rightarrow> epochs_gen" where
  "epochs num = EpochsCreated num"

definition epochs_pull :: "int \<Rightarrow> int \<Rightarrow> Trainer \<Rightarrow> int pulled \<times> epochs_gen \<times> Trainer" where
  "epochs_pull cur e t =
     (case counter_next (counter cur (Some e) 1) of
        None \<Rightarrow> (StopIteration, EpochsFinished, t)
      | Some (x, c') \<Rightarrow> (Yield x, EpochsSuspended (current c') e, t))"

fun epochs_next :: "epochs_gen \<Rightarrow> Trainer \<Rightarrow> int pulled \<times> epochs_gen \<times> Trainer" where
  "epochs_next (EpochsCreated None) t = (Raise TypeError, EpochsFinished, t)"
| "epochs_next (EpochsCreated (Some num)) t = epochs_pull (num_epochs t) (num_epochs t + num) t"
| "epochs_next (EpochsSuspended cur e) t = epochs_pull cur e (t\<lparr>num_epochs := num_epochs t + 1\<rparr>)"
| "epochs_next EpochsFinished t = (StopIteration, EpochsFinished, t)"

text \<open>
  The first \<open>n\<close> calls of \<open>next\<close>: the indices yielded, and the generator and the
  trainer after the last call.
\<close>

fun epochs_take :: "nat \<Rightarrow> epochs_gen \<Rightarrow> Trainer \<Rightarrow> (error + int list) \<times> epochs_gen \<times> Trainer" where
  "epochs_take 0 g t = (Inr [], g, t)"
| "epochs_take (Suc n) g t =
     (case epochs_next g t of
        (StopIteration, g', t') \<Rightarrow> (Inr [], g', t')
      | (Raise e, g', t') \<Rightarrow> (Inl e, g', t')
      | (Yield x, g', t') \<Rightarrow>
          (case epochs_take n g' t' of
             (Inl e, g'', t'') \<Rightarrow> (Inl e, g'', t'')
           | (Inr xs, g'', t'') \<Rightarrow> (Inr (x # xs), g'', t'')))"

section \<open>yann.train.supervised: Trainer.run\<close>

text \<open>
  The run loop and \<open>step\<close> call components that are not part of the trainer's source:
  the callback pipeline, the model, the loss, the optimizer and the gradient scaler, the
  sampler, the learning-rate scheduler, the metric history, the validation pass and the
  persistence of the summary. Each such call is a \<open>site\<close>; what it does is a parameter
  \<open>ext\<close> of the model, which maps the trainer before the call to the exception raised,
  if any, and the trainer after the call (a callback is handed \<open>trainer=self\<close> and may
  call \<open>stop\<close>). The data loader is the parameter \<open>loader\<close>: the \<open>len(inputs)\<close> of
  each batch of one pass.
\<close>

datatype site =
    Notify event
  | SetEpoch int
  | TrainMode
  | ModelForward
  | LossCall
  | ZeroGrad
  | Scale
  | Backward
  | ScalerStep
  | Unscale
  | ClipGrad
  | ScalerUpdate
  | OptimizerStep
  | SchedulerStep
  | RunningMean
  | Validate
  | UpdateSummary
  | SaveSummary

type_synonym external = "site \<Rightarrow> Trainer \<Rightarrow> error option \<times> Trainer"

text \<open>
  A piece of the loop is a function from the trainer to its result, an exception or a
  value, and the trainer it leaves behind: an exception keeps the changes made before it.
\<close>

type_synonym 'a prog = "Trainer \<Rightarrow> (error + 'a) \<times> Trainer"

definition return :: "'a \<Rightarrow> 'a prog" where
  "return a = (\<lambda>t. (Inr a, t))"

definition raise :: "error \<Rightarrow> 'a prog" where
  "raise e = (\<lambda>t. (Inl e, t))"

definition and_then :: "'a prog \<Rightarrow> ('a \<Rightarrow> 'b prog) \<Rightarrow> 'b prog" where
  "and_then m f = (\<lambda>t. case m t of (Inl e, t') \<Rightarrow> (Inl e, t') | (Inr a, t') \<Rightarrow> f a t')"

definition try_except :: "'a prog \<Rightarrow> (error \<Rightarrow> 'a prog) \<Rightarrow> 'a prog" where
  "try_except m handler = (\<lambda>t. case m t of (Inl e, t') \<Rightarrow> handler e t' | (Inr a, t') \<Rightarrow> (Inr a, t'))"

definition try_finally :: "'a prog \<Rightarrow> unit prog \<Rightarrow> 'a prog" where
  "try_finally m cleanup =
     (\<lambda>t. case m t of (r, t') \<Rightarrow>
        (case cleanup t' of (Inl e, t'') \<Rightarrow> (Inl e, t'') | (Inr u, t'') \<Rightarrow> (r, t'')))"

definition only_if :: "(Trainer \<Rightarrow> bool) \<Rightarrow> unit prog \<Rightarrow> unit prog" where
  "only_if c m = (\<lambda>t. if c t then m t else (Inr (), t))"

definition modify :: "(Trainer \<Rightarrow> Trainer) \<Rightarrow> unit prog" where
  "modify f = (\<lambda>t. (Inr (), f t))"

definition call :: "external \<Rightarrow> (Trainer \<Rightarrow> site) \<Rightarrow> unit prog" where
  "call ext s = (\<lambda>t. case ext (s t) t of (None, t') \<Rightarrow> (Inr (), t') | (Some e, t') \<Rightarrow> (Inl e, t'))"

text \<open>
  \<^verbatim>\<open>
  def stop(self, val=True):
    self._stop = val

  def _lr_scheduler_step(self, step=None, metric=None):
    if self.lr_scheduler:
      args = dict()
      if 'metrics' in self.lr_scheduler.step.__code__.co_varnames:
        args['metrics'] = metric
      self.lr_scheduler.step(**args)
  \<close>
\<close>

definition stop :: "bool \<Rightarrow> unit prog" where
  "stop val = modify (\<lambda>t. t\<lparr>stop' := val\<rparr>)"

definition lr_scheduler_step :: "external \<Rightarrow> unit prog" where
  "lr_scheduler_step ext = only_if lr_scheduler (call ext (\<lambda>t. SchedulerStep))"

text \<open>
  \<^verbatim>\<open>
  @property
  def training(self):
    return self.model.training

  def train_mode(self, mode=True):
    self.model.train(mode=mode)

  def step(self, inputs=None, targets=None):
    if not self.training:
      self.train_mode()

    outputs, loss = self.forward(inputs=inputs, targets=targets)

    self.update(loss=loss, inputs=inputs, targets=targets, outputs=outputs)

    return outputs, loss

  def forward(self, inputs=None, targets=None):
    with autocast(enabled=self.amp):
      outputs = self.model(inputs)
      if self.loss:
        loss = self.loss(outputs, targets)
        return outputs, loss
      else:
        return outputs, outputs  # FIXME: return None?

  def update(self, loss=None, inputs=None, targets=None, outputs=None):
    self.optimizer.zero_grad(set_to_none=self._none_grad)

    if self.grad_scaler:
      self.grad_scaler.scale(loss).backward()
      self.grad_scaler.step(self.optimizer)

      if self.clip_grad:
        self.grad_scaler.unscale_(self.optimizer)
        self.clip_grad(self.model.parameters())
      self.grad_scaler.update()
    else:
      loss.backward()

      if self.clip_grad:
        self.clip_grad(self.model.parameters())

      self.optimizer.step()
  \<close>
  The tensors \<open>outputs\<close> and \<open>loss\<close> that \<open>step\<close> returns are not used by the loop
  but to be handed to the callbacks; the model keeps the calls and their order. The
  methods are \<open>Trainer_step\<close>, \<open>Trainer_forward\<close> and \<open>Trainer_update\<close> here, the
  plain names being taken by the counter and the Meter.
\<close>

definition train_mode :: "external \<Rightarrow> unit prog" where
  "train_mode ext = call ext (\<lambda>t. TrainMode)"

definition Trainer_forward :: "external \<Rightarrow> unit prog" where
  "Trainer_forward ext =
     and_then (call ext (\<lambda>t. ModelForward)) (\<lambda>_.
     only_if loss (call ext (\<lambda>t. LossCall)))"

definition Trainer_update :: "external \<Rightarrow> unit prog" where
  "Trainer_update ext =
     and_then (call ext (\<lambda>t. ZeroGrad)) (\<lambda>_ t.
       if grad_scaler t
       then and_then (call ext (\<lambda>t. Scale)) (\<lambda>_.
            and_then (call ext (\<lambda>t. Backward)) (\<lambda>_.
            and_then (call ext (\<lambda>t. ScalerStep)) (\<lambda>_.
            and_then (only_if clip_grad
                        (and_then (call ext (\<lambda>t. Unscale)) (\<lambda>_. call ext (\<lambda>t. ClipGrad)))) (\<lambda>_.
            call ext (\<lambda>t. ScalerUpdate))))) t
       else and_then (call ext (\<lambda>t. Backward)) (\<lambda>_.
            and_then (only_if clip_grad (call ext (\<lambda>t. ClipGrad))) (\<lambda>_.
            call ext (\<lambda>t. OptimizerStep))) t)"

definition Trainer_step :: "external \<Rightarrow> unit prog" where
  "Trainer_step ext =
     and_then (only_if (\<lambda>t. \<not> training t) (train_mode ext)) (\<lambda>_.
     and_then (Trainer_forward ext) (\<lambda>_. Trainer_update ext))"

text \<open>A loop body ends by going on to the next iteration or by \<open>break\<close>.\<close>

datatype ctl = Next | Break

text \<open>
  The body of the batch loop, with callbacks:
  \<^verbatim>\<open>
          for inputs, targets in self.batches():
            self.callbacks.on_step_start(index=self.num_steps, ...)
            try:
              outputs, loss = self.step(inputs=inputs, targets=targets)
            except KeyboardInterrupt as e:
              self.stop()
              break
            except Exception as e:
              self.callbacks.on_step_error(index=self.num_steps, error=e, trainer=self)
              if self._stop: break
              raise e

            self.callbacks.on_step_end(index=self.num_steps, ...)

            if self.lr_scheduler and self.lr_batch_step:
              self._lr_scheduler_step(step=self.num_steps)

            self.num_steps += 1
            self.num_samples += len(inputs)

            if self._stop: break
  \<close>
  \<open>except Exception\<close> catches every exception of the model but KeyboardInterrupt.
\<close>

definition try_step :: "external \<Rightarrow> nat \<Rightarrow> ctl prog" where
  "try_step ext len =
     try_except
       (and_then (Trainer_step ext) (\<lambda>_. return Next))
       (\<lambda>e. if e = KeyboardInterrupt
             then and_then (stop True) (\<lambda>_. return Break)
             else and_then (call ext (\<lambda>t. Notify (OnStepError (num_steps t))))
                    (\<lambda>_ t. if stop' t then (Inr Break, t) else (Inl e, t)))"

definition count_step :: "nat \<Rightarrow> unit prog" where
  "count_step len =
     and_then (modify (\<lambda>t. t\<lparr>num_steps := num_steps t + 1\<rparr>))
       (\<lambda>_. modify (\<lambda>t. t\<lparr>num_samples := num_samples t + int len\<rparr>))"

definition batch_body :: "external \<Rightarrow> nat \<Rightarrow> ctl prog" where
  "batch_body ext len =
     and_then (call ext (\<lambda>t. Notify (OnStepStart (num_steps t)))) (\<lambda>_.
     and_then (try_step ext len) (\<lambda>c.
       case c of
         Break \<Rightarrow> return Break
       | Next \<Rightarrow>
           and_then (call ext (\<lambda>t. Notify (OnStepEnd (num_steps t)))) (\<lambda>_.
           and_then (only_if (\<lambda>t. lr_scheduler t \<and> lr_batch_step t) (lr_scheduler_step ext)) (\<lambda>_.
           and_then (count_step len) (\<lambda>_ t.
             (Inr (if stop' t then Break else Next), t))))))"

text \<open>
  The body of the batch loop, without callbacks:
  \<^verbatim>\<open>
        for inputs, targets in self.batches():
          outputs, loss = self.step(inputs=inputs, targets=targets)

          if self.lr_scheduler and self.lr_batch_step:
            self.lr_scheduler.step(epoch=self.num_steps)

          self.num_steps += 1
          self.num_samples += len(inputs)
  \<close>
\<close>

definition batch_body_plain :: "external \<Rightarrow> nat \<Rightarrow> ctl prog" where
  "batch_body_plain ext len =
     and_then (Trainer_step ext) (\<lambda>_.
     and_then (only_if (\<lambda>t. lr_scheduler t \<and> lr_batch_step t) (call ext (\<lambda>t. SchedulerStep))) (\<lambda>_.
     and_then (count_step len) (\<lambda>_. return Next)))"

text \<open>
  \<^verbatim>\<open>
  def batches(self, device=None):
    for batch in self.loader:
      if self.transform_batch:
        batch = self.transform_batch(*batch)
      yield self.place(batch, device=device)
  \<close>
  One pass over the loader; of a batch the loop uses \<open>len(inputs)\<close> only.
\<close>

definition batches :: "(Trainer \<Rightarrow> nat list) \<Rightarrow> Trainer \<Rightarrow> nat list" where
  "batches loader t = loader t"

fun for_batches :: "(nat \<Rightarrow> ctl prog) \<Rightarrow> nat list \<Rightarrow> unit prog" where
  "for_batches body [] t = (Inr (), t)"
| "for_batches body (b # bs) t =
     (case body b t of
        (Inl e, t') \<Rightarrow> (Inl e, t')
      | (Inr Break, t') \<Rightarrow> (Inr (), t')
      | (Inr Next, t') \<Rightarrow> for_batches body bs t')"

text \<open>
  The body of the epoch loop, with callbacks:
  \<^verbatim>\<open>
        for epoch_idx in self.epochs(num=epochs):
          self.callbacks.on_epoch_start(epoch=self.num_epochs, trainer=self)

          if self.sampler is not None and hasattr(self.sampler, 'set_epoch'):
            self.sampler.set_epoch(epoch_idx)

          for inputs, targets in self.batches():
            ...
          if self._stop: break

          val_loss = self.validate() if self.val_loader else None
          if self.lr_scheduler and not self.lr_batch_step:
            self._lr_scheduler_step(
              step=epoch_idx,
              metric=self.history.metrics.running_mean('loss')
                if val_loss is None else val_loss,
            )

          self.callbacks.on_epoch_end(epoch=epoch_idx, trainer=self)
  \<close>
  \<open>validate\<close> returns a loss when there is a validation loader, so \<open>val_loss\<close> is
  \<open>None\<close> exactly when \<open>validate\<close> was not called.
\<close>

definition validate_if_loader :: "external \<Rightarrow> bool prog" where
  "validate_if_loader ext =
     (\<lambda>t. if val_loader t
          then and_then (call ext (\<lambda>t. Validate)) (\<lambda>_. return True) t
          else (Inr False, t))"

definition scheduler_with_metric :: "external \<Rightarrow> bool \<Rightarrow> unit prog" where
  "scheduler_with_metric ext has_val_loss =
     and_then (if has_val_loss then return () else call ext (\<lambda>t. RunningMean))
       (\<lambda>_. lr_scheduler_step ext)"

definition epoch_body :: "external \<Rightarrow> (Trainer \<Rightarrow> nat list) \<Rightarrow> int \<Rightarrow> ctl prog" where
  "epoch_body ext loader epoch_idx =
     and_then (call ext (\<lambda>t. Notify (OnEpochStart (num_epochs t)))) (\<lambda>_.
     and_then (only_if sampler_set_epoch (call ext (\<lambda>t. SetEpoch epoch_idx))) (\<lambda>_.
     and_then (\<lambda>t. for_batches (batch_body ext) (batches loader t) t) (\<lambda>_ t.
       if stop' t then (Inr Break, t)
       else
         and_then (validate_if_loader ext) (\<lambda>has_val_loss.
         and_then (only_if (\<lambda>t. lr_scheduler t \<and> \<not> lr_batch_step t)
                     (scheduler_with_metric ext has_val_loss)) (\<lambda>_.
         and_then (call ext (\<lambda>t. Notify (OnEpochEnd epoch_idx))) (\<lambda>_. return Next))) t)))"

text \<open>
  The body of the epoch loop, without callbacks:
  \<^verbatim>\<open>
      for epoch_idx in self.epochs(num=epochs):
        if self.sampler is not None and hasattr(self.sampler, 'set_epoch'):
          self.sampler.set_epoch(epoch_idx)

        for inputs, targets in self.batches():
          ...
        val_loss = self.validate() if self.val_loader else None
        self._lr_scheduler_step(
          step=epoch_idx,
          metric=self.history.metrics.running_mean('loss')
          if val_loss is None else val_loss
        )
  \<close>
\<close>

definition epoch_body_plain :: "external \<Rightarrow> (Trainer \<Rightarrow> nat list) \<Rightarrow> int \<Rightarrow> ctl prog" where
  "epoch_body_plain ext loader epoch_idx =
     and_then (only_if sampler_set_epoch (call ext (\<lambda>t. SetEpoch epoch_idx))) (\<lambda>_.
     and_then (\<lambda>t. for_batches (batch_body_plain ext) (batches loader t) t) (\<lambda>_.
     and_then (validate_if_loader ext) (\<lambda>has_val_loss.
     and_then (scheduler_with_metric ext has_val_loss) (\<lambda>_. return Next))))"

text \<open>
  The \<open>for\<close> loop over the generator \<open>self.epochs(num=epochs)\<close>. A \<open>break\<close> leaves the
  generator suspended: it is not resumed, and the epoch counter is not advanced for the
  epoch in which the loop was left. The loop ends, because each index the generator
  yields brings its counter closer to the bound.
\<close>

fun epochs_left :: "epochs_gen \<Rightarrow> nat" where
  "epochs_left (EpochsCreated None) = 0"
| "epochs_left (EpochsCreated (Some num)) = Suc (nat num)"
| "epochs_left (EpochsSuspended cur e) = Suc (nat (e - cur))"
| "epochs_left EpochsFinished = 0"

lemma epochs_next_decreases:
  "epochs_next g t = (Yield x, g', t') \<Longrightarrow> epochs_left g' < epochs_left g"
  by (cases g rule: epochs_left.cases)
     (auto simp: epochs_pull_def counter_next_def counter_continues_def counter_def
           split: if_splits)

function for_epochs :: "(int \<Rightarrow> ctl prog) \<Rightarrow> epochs_gen \<Rightarrow> unit prog" where
  "for_epochs body g t =
     (case epochs_next g t of
        (StopIteration, g', t') \<Rightarrow> (Inr (), t')
      | (Raise e, g', t') \<Rightarrow> (Inl e, t')
      | (Yield epoch_idx, g', t') \<Rightarrow>
          (case body epoch_idx t' of
             (Inl e, t'') \<Rightarrow> (Inl e, t'')
           | (Inr Break, t'') \<Rightarrow> (Inr (), t'')
           | (Inr Next, t'') \<Rightarrow> for_epochs body g' t''))"
  by pat_completeness auto
termination
proof (relation "measure (\<lambda>(body, g, t). epochs_left g)", goal_cases)
  case 1
  show ?case by simp
next
  case (2 body g t x y epoch_idx g' t' r t'' c)
  then have "epochs_next g t = (Yield epoch_idx, g', t')" by simp
  from epochs_next_decreases [OF this] show ?case by simp
qed

text \<open>
  \<^verbatim>\<open>
  def run(self, epochs=None):
    self._stop = False

    if self.callbacks:
      try:
        self.callbacks.on_train_start(trainer=self)
        for epoch_idx in self.epochs(num=epochs):
          ...
        self.callbacks.on_train_end(trainer=self)
      except KeyboardInterrupt as e:
        self.stop()
      except Exception as e:
        self.callbacks.on_error(e, trainer=self)
        raise e
      finally:
        self.update_summary()
        self.save_summary()
    else:
      for epoch_idx in self.epochs(num=epochs):
        ...
      self.update_summary()
      self.save_summary()
  \<close>
\<close>

definition persist_summary :: "external \<Rightarrow> unit prog" where
  "persist_summary ext =
     and_then (call ext (\<lambda>t. UpdateSummary)) (\<lambda>_. call ext (\<lambda>t. SaveSummary))"

definition run :: "external \<Rightarrow> (Trainer \<Rightarrow> nat list) \<Rightarrow> int option \<Rightarrow> unit prog" where
  "run ext loader num =
     and_then (stop False) (\<lambda>_ t.
       if callbacks t
       then try_finally
              (try_except
                 (and_then (call ext (\<lambda>t. Notify OnTrainStart)) (\<lambda>_.
                  and_then (for_epochs (epoch_body ext loader) (epochs num)) (\<lambda>_.
                  call ext (\<lambda>t. Notify OnTrainEnd))))
                 (\<lambda>e. if e = KeyboardInterrupt then stop True
                       else and_then (call ext (\<lambda>t. Notify OnError)) (\<lambda>_. raise e)))
              (persist_summary ext) t
       else and_then (for_epochs (epoch_body_plain ext loader) (epochs num))
              (\<lambda>_. persist_summary ext) t)"

section \<open>The progress counters along the run loop\<close>


definition same_counters :: "Trainer \<Rightarrow> Trainer \<Rightarrow> bool" where
  "same_counters t t' =
     (num_steps t' = num_steps t \<and> num_samples t' = num_samples t \<and> num_epochs t' = num_epochs t)"


definition leaves_counters :: "external \<Rightarrow> bool" where
  "leaves_counters ext = (\<forall>s t. same_counters t (snd (ext s t)))"

text \<open>External components that return at once and change nothing.\<close>

definition quiet :: external where
  "quiet s t = (None, t)"




definition adds :: "int \<Rightarrow> int \<Rightarrow> int \<Rightarrow> Trainer \<Rightarrow> Trainer \<Rightarrow> bool" where
  "adds i j k t t' =
     (num_steps t' = num_steps t + i \<and> num_samples t' = num_samples t + j
      \<and> num_epochs t' = num_epochs t + k)"

definition completes :: "('a \<Rightarrow> bool) \<Rightarrow> 'a prog \<Rightarrow> int \<Rightarrow> int \<Rightarrow> int \<Rightarrow> bool" where
  "completes P m i j k =
     (\<forall>t. \<not> stop' t \<longrightarrow> (\<exists>a t'. m t = (Inr a, t') \<and> P a \<and> adds i j k t t' \<and> \<not> stop' t'))"

section \<open>yann.train.supervised: Trainer.__setattr__\<close>

text \<open>
  \<^verbatim>\<open>
  def __setattr__(self, key, value):
    if key == 'optimizer':
      if hasattr(self, 'lr_scheduler') and hasattr(self.lr_scheduler, 'optimizer'):
        self.lr_scheduler.optimizer = value
    if key == 'loader':
      if hasattr(self, 'dataset') and hasattr(value, 'dataset'):
        super(Trainer, self).__setattr__('dataset', value.dataset)
      if hasattr(value, 'batch_size'):
        super(Trainer, self).__setattr__('batch_size', value.batch_size)
    if key == 'batch_size' and hasattr(self, 'batch_size') and self.batch_size != key:
      if hasattr(self, 'loader') and self.loader:
        raise ValueError(
          'Cannot modify batch_size because a loader is defined '
          'and modifying batch size of a loader is not supported, '
          'try creating and setting a new loader instead'
        )
      if key == 'dataset' and hasattr(self, 'dataset') and self.dataset \
          and hasattr(self, 'loader') and self.loader:
        raise ValueError(
          'Cannot modify dataset because a loader is defined '
          'and modifying dataset of a loader is not supported, '
          'try creating and setting a new loader instead'
        )

    logging.debug(f"setting '{key}' to {value}")
    super(Trainer, self).__setattr__(key, value)
  \<close>
  Every attribute of a Trainer is written through this method, so the trainer is here its
  instance dictionary, from attribute names to values. A value is \<open>None\<close>, an integer, a
  string, or an object with its truth value (what \<open>__bool__\<close> or \<open>__len__\<close> gives: a
  loader without batches is falsy) and its attributes. An attribute that is not in the
  instance dictionary is looked up in the class: the body of the class binds \<open>loader\<close>,
  \<open>lr_scheduler\<close> and the other optional components to \<open>None\<close>, but neither \<open>dataset\<close>
  nor \<open>batch_size\<close>. The attributes \<open>root\<close> and \<open>training\<close> are properties without a
  setter, which \<open>object.__setattr__\<close> refuses with AttributeError.
\<close>

datatype pyval = PyNone | PyInt int | PyStr string | PyObj bool "(string \<times> pyval) list"

type_synonym instance_dict = "string \<rightharpoonup> pyval"

fun truthy :: "pyval \<Rightarrow> bool" where
  "truthy PyNone = False"
| "truthy (PyInt n) = (n \<noteq> 0)"
| "truthy (PyStr s) = (s \<noteq> [])"
| "truthy (PyObj b attrs) = b"

fun obj_getattr :: "pyval \<Rightarrow> string \<Rightarrow> pyval option" where
  "obj_getattr (PyObj b attrs) name = map_of attrs name"
| "obj_getattr v name = None"

fun obj_setattr :: "pyval \<Rightarrow> string \<Rightarrow> pyval \<Rightarrow> pyval" where
  "obj_setattr (PyObj b attrs) name v = PyObj b (dict_setitem attrs name v)"
| "obj_setattr x name v = x"

definition class_attr :: "string \<Rightarrow> pyval option" where
  "class_attr name =
     (if name \<in> set [''params'', ''model'', ''loss'', ''optimizer'', ''lr_scheduler'',
                       ''clip_grad'', ''loader'', ''classes'', ''sampler'', ''paths'',
                       ''callbacks'', ''log'', ''grad_scaler'', ''history'', ''_id_key'']
      then Some PyNone
      else if name = ''_input_key'' then Some (PyInt 0)
      else if name = ''_target_key'' then Some (PyInt 1)
      else None)"

definition getattr :: "instance_dict \<Rightarrow> string \<Rightarrow> pyval option" where
  "getattr self name = (case self name of Some v \<Rightarrow> Some v | None \<Rightarrow> class_attr name)"

definition hasattr :: "instance_dict \<Rightarrow> string \<Rightarrow> bool" where
  "hasattr self name = (getattr self name \<noteq> None)"

definition object_setattr :: "instance_dict \<Rightarrow> string \<Rightarrow> pyval \<Rightarrow> error + instance_dict" where
  "object_setattr self key v =
     (if key = ''root'' \<or> key = ''training'' then Inl AttributeError else Inr (self(key \<mapsto> v)))"

definition rebind_scheduler :: "instance_dict \<Rightarrow> string \<Rightarrow> pyval \<Rightarrow> instance_dict" where
  "rebind_scheduler self key v =
     (if key = ''optimizer'' then
        (case getattr self ''lr_scheduler'' of
           Some sched \<Rightarrow>
             if obj_getattr sched ''optimizer'' \<noteq> None
             then self(''lr_scheduler'' \<mapsto> obj_setattr sched ''optimizer'' v)
             else self
         | None \<Rightarrow> self)
      else self)"

definition copy_from_loader :: "instance_dict \<Rightarrow> string \<Rightarrow> pyval \<Rightarrow> instance_dict" where
  "copy_from_loader self key v =
     (if key = ''loader'' then
        (let s1 = (case obj_getattr v ''dataset'' of
                     Some d \<Rightarrow> if hasattr self ''dataset'' then self(''dataset'' \<mapsto> d) else self
                   | None \<Rightarrow> self)
         in case obj_getattr v ''batch_size'' of
              Some b \<Rightarrow> s1(''batch_size'' \<mapsto> b)
            | None \<Rightarrow> s1)
      else self)"

definition attr_truthy :: "instance_dict \<Rightarrow> string \<Rightarrow> bool" where
  "attr_truthy self name = (case getattr self name of Some v \<Rightarrow> truthy v | None \<Rightarrow> False)"

definition Trainer_setattr :: "instance_dict \<Rightarrow> string \<Rightarrow> pyval \<Rightarrow> error + instance_dict" where
  "Trainer_setattr self key v =
     (let s1 = rebind_scheduler self key v;
          s2 = copy_from_loader s1 key v
      in if key = ''batch_size'' \<and> hasattr s2 ''batch_size''
            \<and> getattr s2 ''batch_size'' \<noteq> Some (PyStr key)
         then (if attr_truthy s2 ''loader'' then Inl ValueError
               else if key = ''dataset'' \<and> attr_truthy s2 ''dataset'' \<and> attr_truthy s2 ''loader''
               then Inl ValueError
               else object_setattr s2 key v)
         else object_setattr s2 key v)"

text \<open>
  A trainer as the constructor leaves it when it was given a dataset and a batch size:
  both are set, and the loader built from them is bound.
\<close>

definition Trainer_with_loader :: instance_dict where
  "Trainer_with_loader =
     [''dataset'' \<mapsto> PyObj True [(''name'', PyStr ''train'')],
      ''batch_size'' \<mapsto> PyInt 32,
      ''loader'' \<mapsto> PyObj True [(''dataset'', PyObj True [(''name'', PyStr ''train'')]),
                                 (''batch_size'', PyInt 32)]]"

section \<open>The run loop with a Checkpoint callback\<close>

text \<open>
  A callback pipeline that holds one Checkpoint callback: every event is handed to it with
  \<open>trainer=self\<close>; the other external components return at once.
\<close>

definition checkpointing :: "Checkpoint \<Rightarrow> external" where
  "checkpointing cb s t =
     (case s of
        Notify ev \<Rightarrow>
          (case Checkpoint_notify cb ev (Some t) of
             Inl e \<Rightarrow> (Some e, t)
           | Inr None \<Rightarrow> (None, t)
           | Inr (Some t') \<Rightarrow> (None, t'))
      | _ \<Rightarrow> (None, t))"

section \<open>Properties of the Python numbers\<close>

lemma pow2_powi: "pow2 k = 2 powi k"
  by (simp add: pow2_def power_int_def inverse_eq_divide power_one_over)

lemma pow2_pos [simp]: "0 < pow2 k"
  by (simp add: pow2_powi)

lemma pow2_nonneg [simp]: "0 \<le> pow2 k"
  by (rule less_imp_le) simp

lemma pow2_neq0 [simp]: "pow2 k \<noteq> 0"
  using pow2_pos [of k] by linarith

lemma pow2_add: "pow2 (a + b) = pow2 a * pow2 b"
  by (simp add: pow2_powi power_int_add)

lemma pow2_diff: "pow2 (a - b) = pow2 a / pow2 b"
  by (simp add: pow2_powi power_int_diff)

lemma pow2_nat: "pow2 (int n) = 2 ^ n"
  by (simp add: pow2_def)

lemma pow2_mono: "a \<le> b \<Longrightarrow> pow2 a \<le> pow2 b"
  by (simp add: pow2_powi power_int_increasing)

lemma pow2_less: "a < b \<Longrightarrow> pow2 a < pow2 b"
  by (simp add: pow2_powi power_int_strict_increasing)

lemma pow2_le_iff: "pow2 a \<le> pow2 b \<longleftrightarrow> a \<le> b"
  using pow2_mono [of a b] pow2_less [of b a] by (auto simp: not_le [symmetric])

lemma pow2_less_iff: "pow2 a < pow2 b \<longleftrightarrow> a < b"
  using pow2_mono [of b a] pow2_less [of a b] by (auto simp: not_le [symmetric])

lemma pow2_int: "0 \<le> k \<Longrightarrow> pow2 k = of_int (2 ^ nat k)"
  by (simp add: pow2_def)

lemma bitlen_pow2_bounds:
  assumes "0 < n"
  shows "pow2 (bitlen n - 1) \<le> of_int n" "of_int n < pow2 (bitlen n)"
proof -
  have b: "1 \<le> bitlen n" using assms by (simp add: bitlen_alt_def)
  from bitlen_bounds [OF assms] have "2 ^ nat (bitlen n - 1) \<le> n" "n < 2 ^ nat (bitlen n)"
    by simp_all
  then have "(of_int (2 ^ nat (bitlen n - 1)) :: rat) \<le> of_int n"
    "(of_int n :: rat) < of_int (2 ^ nat (bitlen n))"
    by (simp_all only: of_int_le_iff of_int_less_iff)
  then show "pow2 (bitlen n - 1) \<le> of_int n" "of_int n < pow2 (bitlen n)"
    using b by (simp_all add: pow2_int)
qed

lemma ilog2_bounds:
  assumes "0 < x"
  shows "pow2 (ilog2 x) \<le> x" "x < pow2 (ilog2 x + 1)"
proof -
  obtain n d where q: "quotient_of x = (n, d)" by (cases "quotient_of x")
  then have d: "0 < d" and x: "x = of_int n / of_int d"
    using quotient_of_denom_pos quotient_of_div by blast+
  then have n: "0 < n" using assms by (simp add: zero_less_divide_iff)
  define k where "k = bitlen n - bitlen d"
  have bn: "1 \<le> bitlen n" "1 \<le> bitlen d" using n d by (simp_all add: bitlen_alt_def)
  have n1: "pow2 (bitlen n - 1) \<le> of_int n" "of_int n < pow2 (bitlen n)"
    using bitlen_pow2_bounds [OF n] by simp_all
  have d1: "pow2 (bitlen d - 1) \<le> of_int d" "of_int d < pow2 (bitlen d)"
    using bitlen_pow2_bounds [OF d] by simp_all
  have dp: "(0::rat) < of_int d" using d by simp
  have up: "x < pow2 (k + 1)"
  proof -
    have "of_int n < pow2 (k + 1) * pow2 (bitlen d - 1)"
      using n1(2) by (simp add: k_def flip: pow2_add)
    also have "\<dots> \<le> pow2 (k + 1) * of_int d"
      using d1(1) by simp
    finally show ?thesis using dp by (simp add: x pos_divide_less_eq)
  qed
  have lo: "pow2 (k - 1) < x"
  proof -
    have "pow2 (k - 1) * of_int d < pow2 (k - 1) * pow2 (bitlen d)"
      using d1(2) by simp
    also have "\<dots> = pow2 (bitlen n - 1)" by (simp add: k_def flip: pow2_add)
    also have "\<dots> \<le> of_int n" by (rule n1(1))
    finally show ?thesis using dp by (simp add: x pos_less_divide_eq)
  qed
  have e: "ilog2 x = (if pow2 k \<le> x then k else k - 1)"
    by (simp add: ilog2_def q k_def Let_def)
  show "pow2 (ilog2 x) \<le> x" using lo by (simp add: e)
  show "x < pow2 (ilog2 x + 1)" using up by (auto simp: e)
qed

lemma ilog2_eqI:
  assumes "pow2 e \<le> x" "x < pow2 (e + 1)"
  shows "ilog2 x = e"
proof -
  have x: "0 < x" using assms(1) pow2_pos [of e] by linarith
  note b = ilog2_bounds [OF x]
  have "pow2 e < pow2 (ilog2 x + 1)" using assms(1) b(2) by linarith
  moreover have "pow2 (ilog2 x) < pow2 (e + 1)" using assms(2) b(1) by linarith
  ultimately show ?thesis by (simp add: pow2_less_iff)
qed

lemma ilog2_ge: "0 < x \<Longrightarrow> pow2 k \<le> x \<Longrightarrow> k \<le> ilog2 x"
  using ilog2_bounds(2) [of x] pow2_less_iff [of k "ilog2 x + 1"] by simp

lemma ilog2_less: "0 < x \<Longrightarrow> x < pow2 k \<Longrightarrow> ilog2 x < k"
  using ilog2_bounds(1) [of x] pow2_less_iff [of "ilog2 x" k] by simp


lemma round_half_even_near: "\<bar>of_int (round_half_even x) - x\<bar> \<le> 1 / 2"
proof -
  have "of_int \<lfloor>x\<rfloor> \<le> x" "x < of_int \<lfloor>x\<rfloor> + 1" by linarith+
  then show ?thesis
    by (auto simp: round_half_even_def Let_def abs_le_iff)
qed

lemma round_half_even_upper: "of_int (round_half_even x) \<le> x + 1 / 2"
  and round_half_even_lower: "x - 1 / 2 \<le> of_int (round_half_even x)"
  using round_half_even_near [of x] by (simp_all only: abs_le_iff) linarith+

lemma round_half_even_of_int [simp]: "round_half_even (of_int n) = n"
  by (simp add: round_half_even_def)

lemma round_half_even_mono:
  assumes "a \<le> b"
  shows "round_half_even a \<le> round_half_even b"
proof (rule ccontr)
  assume "\<not> round_half_even a \<le> round_half_even b"
  then have "round_half_even b + 1 \<le> round_half_even a" by simp
  then have "(of_int (round_half_even b) :: rat) + 1 \<le> of_int (round_half_even a)"
    by (metis of_int_1 of_int_add of_int_le_iff)
  with round_half_even_near [of a] round_half_even_near [of b] assms
  have "a = b" by (simp add: abs_le_iff)
  with \<open>\<not> round_half_even a \<le> round_half_even b\<close> show False by simp
qed

lemma round_half_even_le: "a \<le> of_int n \<Longrightarrow> round_half_even a \<le> n"
  using round_half_even_mono [of a "of_int n"] by simp

lemma round_half_even_ge: "of_int n \<le> a \<Longrightarrow> n \<le> round_half_even a"
  using round_half_even_mono [of "of_int n" a] by simp

lemma round_half_even_nonneg: "0 \<le> x \<Longrightarrow> 0 \<le> round_half_even x"
  using round_half_even_ge [of 0 x] by simp

lemma quantum_pos [simp]: "0 < quantum x"
  by (simp add: quantum_def)

lemma quantum_nonneg [simp]: "0 \<le> quantum x"
  by (rule less_imp_le) simp

lemma quantum_neq0 [simp]: "quantum x \<noteq> 0"
  using quantum_pos [of x] by linarith

lemma pow2_52: "pow2 52 = of_int (2 ^ 52)" and pow2_53: "pow2 53 = of_int (2 ^ 53)"
  by (simp_all add: pow2_def)

lemma scaled_less:
  assumes "0 < x"
  shows "x / quantum x < pow2 53"
proof -
  have "ilog2 x + 1 \<le> (max (ilog2 x) (- 1022) - 52) + 53" by simp
  then have "pow2 (ilog2 x + 1) \<le> pow2 ((max (ilog2 x) (- 1022) - 52) + 53)"
    by (rule pow2_mono)
  also have "\<dots> = pow2 53 * quantum x" by (simp only: pow2_add quantum_def mult.commute)
  finally have "x < pow2 53 * quantum x"
    using ilog2_bounds(2) [OF assms] by linarith
  then show ?thesis by (simp only: pos_divide_less_eq quantum_pos)
qed

lemma scaled_ge:
  assumes "0 < x" "- 1022 \<le> ilog2 x"
  shows "pow2 52 \<le> x / quantum x"
proof -
  have q: "quantum x = pow2 (ilog2 x - 52)" using assms(2) by (simp add: quantum_def max_def)
  have "pow2 52 * quantum x = pow2 (ilog2 x)"
    using pow2_add [of 52 "ilog2 x - 52"] by (simp add: q)
  then have "pow2 52 * quantum x \<le> x"
    using ilog2_bounds(1) [OF assms(1)] by linarith
  then show ?thesis by (simp only: pos_le_divide_eq quantum_pos)
qed

lemma significand_le:
  assumes "0 < x"
  shows "round_half_even (x / quantum x) \<le> 2 ^ 53"
proof (rule round_half_even_le)
  show "x / quantum x \<le> of_int (2 ^ 53)"
    using scaled_less [OF assms] unfolding pow2_53 by (rule less_imp_le)
qed

lemma significand_ge:
  assumes "0 < x" "- 1022 \<le> ilog2 x"
  shows "2 ^ 52 \<le> round_half_even (x / quantum x)"
proof (rule round_half_even_ge)
  show "of_int (2 ^ 52) \<le> x / quantum x"
    using scaled_ge [OF assms] unfolding pow2_52 .
qed

lemma significand_nonneg: "0 < x \<Longrightarrow> 0 \<le> round_half_even (x / quantum x)"
  by (intro round_half_even_nonneg divide_nonneg_pos) simp_all

lemma of_int_mult_quantum_mono:
  "m \<le> n \<Longrightarrow> of_int m * quantum x \<le> of_int n * quantum x"
  by (intro mult_right_mono) simp_all

text \<open>The rounded value of a large number overflows exactly when it reaches \<open>2 ^ 1024\<close>.\<close>

lemma round_pos_overflow_iff:
  assumes "0 < x"
  shows "round_pos x = PosInf
     \<longleftrightarrow> pow2 1024 \<le> of_int (round_half_even (x / quantum x)) * quantum x"
proof -
  define m where "m = round_half_even (x / quantum x)"
  define e where "e = ilog2 x"
  have rp: "round_pos x = (if 1023 < e \<or> (e = 1023 \<and> m = 2 ^ 53) then PosInf
                           else Finite (of_int m * quantum x))"
    by (simp only: round_pos_def Let_def m_def e_def)
  have m53: "m \<le> 2 ^ 53" unfolding m_def by (rule significand_le [OF assms])
  have m0: "0 \<le> m" unfolding m_def by (rule significand_nonneg [OF assms])
  consider "1023 < e" | "e = 1023" | "e < 1023" by linarith
  then have "(1023 < e \<or> (e = 1023 \<and> m = 2 ^ 53)) \<longleftrightarrow> pow2 1024 \<le> of_int m * quantum x"
  proof cases
    case 1
    then have q: "quantum x = pow2 (e - 52)" by (simp add: quantum_def max_def e_def)
    have "2 ^ 52 \<le> m" unfolding m_def using significand_ge [OF assms] 1 by (simp add: e_def)
    then have "of_int (2 ^ 52) * quantum x \<le> of_int m * quantum x"
      by (rule of_int_mult_quantum_mono)
    moreover have "pow2 e = of_int (2 ^ 52) * quantum x"
      using pow2_add [of 52 "e - 52"] by (simp only: q pow2_52) simp
    moreover have "pow2 1024 \<le> pow2 e" using 1 by (intro pow2_mono) simp
    ultimately have "pow2 1024 \<le> of_int m * quantum x" by linarith
    then show ?thesis using 1 by simp
  next
    case 2
    then have q: "quantum x = pow2 971" by (simp add: quantum_def e_def)
    have p: "pow2 1024 = of_int (2 ^ 53) * pow2 971"
      using pow2_add [of 53 971] by (simp only: pow2_53) simp
    have "m = 2 ^ 53 \<longleftrightarrow> 2 ^ 53 \<le> m" using m53 by linarith
    also have "\<dots> \<longleftrightarrow> (of_int (2 ^ 53) :: rat) \<le> of_int m"
      by (simp only: of_int_le_iff)
    also have "\<dots> \<longleftrightarrow> of_int (2 ^ 53) * pow2 971 \<le> of_int m * pow2 971"
      by (simp only: mult_le_cancel_right_pos pow2_pos)
    finally show ?thesis using 2 by (simp only: q p) simp
  next
    case 3
    then have "max e (- 1022) - 52 \<le> 970" by simp
    then have "quantum x \<le> pow2 970" unfolding quantum_def e_def by (rule pow2_mono)
    moreover have "(of_int m :: rat) \<le> of_int (2 ^ 53)"
      using m53 by (simp only: of_int_le_iff)
    moreover have "(0::rat) \<le> of_int m" using m0 by simp
    ultimately have "of_int m * quantum x \<le> of_int (2 ^ 53) * pow2 970"
      by (intro mult_mono) simp_all
    also have "\<dots> = pow2 1023" using pow2_add [of 53 970] by (simp only: pow2_53) simp
    also have "\<dots> < pow2 1024" by (intro pow2_less) simp
    finally show ?thesis using 3 by simp
  qed
  then show ?thesis unfolding rp m_def by simp
qed


lemma round_pos_cases:
  "round_pos x = PosInf \<or> round_pos x = Finite (of_int (round_half_even (x / quantum x)) * quantum x)"
  by (simp add: round_pos_def Let_def)

lemma rounded_ge:
  assumes "0 < x" "- 1022 \<le> ilog2 x"
  shows "pow2 (ilog2 x) \<le> of_int (round_half_even (x / quantum x)) * quantum x"
proof -
  have q: "quantum x = pow2 (ilog2 x - 52)" using assms(2) by (simp add: quantum_def max_def)
  have "of_int (2 ^ 52) * quantum x \<le> of_int (round_half_even (x / quantum x)) * quantum x"
    using significand_ge [OF assms] by (rule of_int_mult_quantum_mono)
  moreover have "pow2 (ilog2 x) = of_int (2 ^ 52) * quantum x"
    using pow2_add [of 52 "ilog2 x - 52"] by (simp only: q pow2_52) simp
  ultimately show ?thesis by linarith
qed

lemma rounded_nonneg:
  assumes "0 < x"
  shows "0 \<le> of_int (round_half_even (x / quantum x)) * quantum x"
  using significand_nonneg [OF assms] by simp

text \<open>Rounding does not go below a power of two that the number has reached.\<close>

lemma round_pos_lower:
  assumes "pow2 k \<le> x" "- 1022 \<le> k"
  shows "round_pos x = PosInf \<or> (\<exists>r. round_pos x = Finite r \<and> pow2 k \<le> r)"
proof -
  have x: "0 < x" using assms(1) pow2_pos [of k] by linarith
  have k: "k \<le> ilog2 x" using ilog2_ge [OF x assms(1)] .
  then have "pow2 k \<le> pow2 (ilog2 x)" by (rule pow2_mono)
  with rounded_ge [OF x] k assms(2)
  have "pow2 k \<le> of_int (round_half_even (x / quantum x)) * quantum x" by linarith
  with round_pos_cases [of x] show ?thesis by auto
qed

lemma pow2_1024: "pow2 1024 = pow2 53 * pow2 971" "pow2 971 = 2 * pow2 970"
  "pow2 1024 = 2 * pow2 1023" "pow2 1023 = pow2 53 * pow2 970"
  using pow2_add [of 53 971] pow2_add [of 1 970] pow2_add [of 1 1023] pow2_add [of 53 970]
  by (simp_all add: pow2_def [of 1])

text \<open>
  The largest float is \<open>2 ^ 1024 - 2 ^ 971\<close>; a number rounds to a finite float exactly
  when it is below \<open>2 ^ 1024 - 2 ^ 970\<close>, the midpoint between the largest float and
  \<open>2 ^ 1024\<close>, and the midpoint itself goes to the even significand, which overflows.
\<close>

lemma round_pos_finite:
  assumes "0 < x" "x < pow2 1024 - pow2 970"
  shows "\<exists>r. round_pos x = Finite r \<and> 0 \<le> r \<and> r \<le> pow2 1024 - pow2 971"
proof -
  define m where "m = round_half_even (x / quantum x)"
  define e where "e = ilog2 x"
  have m53: "m \<le> 2 ^ 53" unfolding m_def by (rule significand_le [OF assms(1)])
  have m0: "0 \<le> m" unfolding m_def by (rule significand_nonneg [OF assms(1)])
  have "x < pow2 1024" using assms(2) pow2_pos [of 970] by linarith
  then have e: "e < 1024" unfolding e_def by (rule ilog2_less [OF assms(1)])
  have le: "of_int m * quantum x \<le> pow2 1024 - pow2 971"
  proof (cases "e = 1023")
    case True
    then have q: "quantum x = pow2 971" by (simp add: quantum_def e_def)
    have "x < (pow2 53 - 1 / 2) * pow2 971"
      using assms(2) by (simp add: pow2_1024 algebra_simps)
    then have "x / quantum x < pow2 53 - 1 / 2"
      by (simp only: q pos_divide_less_eq pow2_pos)
    with round_half_even_upper [of "x / quantum x"]
    have "(of_int m :: rat) < of_int (2 ^ 53)"
      unfolding m_def pow2_53 by linarith
    then have "m < 2 ^ 53" by (simp only: of_int_less_iff)
    then have "m \<le> 2 ^ 53 - 1" by linarith
    then have "(of_int m :: rat) \<le> of_int (2 ^ 53 - 1)" by (simp only: of_int_le_iff)
    then have "of_int m * pow2 971 \<le> of_int (2 ^ 53 - 1) * pow2 971"
      by (intro mult_right_mono) simp_all
    also have "\<dots> = pow2 1024 - pow2 971"
      by (simp only: pow2_1024(1) pow2_53) (simp add: algebra_simps)
    finally show ?thesis by (simp only: q)
  next
    case False
    then have "max e (- 1022) - 52 \<le> 970" using e by simp
    then have "quantum x \<le> pow2 970" unfolding quantum_def e_def by (rule pow2_mono)
    moreover have "(of_int m :: rat) \<le> of_int (2 ^ 53)"
      using m53 by (simp only: of_int_le_iff)
    moreover have "(0::rat) \<le> of_int m" using m0 by simp
    ultimately have "of_int m * quantum x \<le> of_int (2 ^ 53) * pow2 970"
      by (intro mult_mono) simp_all
    also have "\<dots> = pow2 1023" by (simp only: pow2_1024(4) pow2_53)
    also have "\<dots> \<le> pow2 1024 - pow2 971"
    proof -
      have "pow2 971 \<le> pow2 1023" by (intro pow2_mono) simp
      then show ?thesis by (simp add: pow2_1024(3))
    qed
    finally show ?thesis .
  qed
  have "pow2 1024 - pow2 971 < pow2 1024" using pow2_pos [of 971] by linarith
  with le have "\<not> pow2 1024 \<le> of_int m * quantum x" by linarith
  then have "round_pos x \<noteq> PosInf"
    using round_pos_overflow_iff [OF assms(1)] by (simp add: m_def)
  with round_pos_cases [of x] have "round_pos x = Finite (of_int m * quantum x)"
    by (simp add: m_def)
  with le m0 show ?thesis by simp
qed

lemma round_half_even_tie:
  "round_half_even (of_int n + 1 / 2) = (if even n then n else n + 1)"
proof -
  have "\<lfloor>(of_int n :: rat) + 1 / 2\<rfloor> = n" by (rule floor_unique) simp_all
  then show ?thesis by (simp add: round_half_even_def Let_def)
qed

lemma round_pos_overflow:
  assumes "pow2 1024 - pow2 970 \<le> x"
  shows "round_pos x = PosInf"
proof -
  define e where "e = ilog2 x"
  have "pow2 970 \<le> pow2 1023" by (intro pow2_mono) simp
  then have lo: "pow2 1023 \<le> x" using assms by (simp add: pow2_1024(3))
  then have x: "0 < x" using pow2_pos [of 1023] by linarith
  have e: "1023 \<le> e" unfolding e_def by (rule ilog2_ge [OF x lo])
  show ?thesis
  proof (cases "e = 1023")
    case True
    then have q: "quantum x = pow2 971" by (simp add: quantum_def e_def)
    have "(pow2 53 - 1 / 2) * pow2 971 \<le> x"
      using assms by (simp add: pow2_1024 algebra_simps)
    then have "of_int (2 ^ 53 - 1) + 1 / 2 \<le> x / quantum x"
      by (simp only: q pos_le_divide_eq pow2_pos pow2_53) simp
    from round_half_even_mono [OF this]
    have "2 ^ 53 \<le> round_half_even (x / quantum x)"
      by (simp only: round_half_even_tie) simp
    with significand_le [OF x] have "round_half_even (x / quantum x) = 2 ^ 53" by linarith
    with True show ?thesis by (simp add: round_pos_def Let_def e_def)
  next
    case False
    with e have "1023 < ilog2 x" by (simp add: e_def)
    then show ?thesis by (simp add: round_pos_def Let_def)
  qed
qed

text \<open>A number that is a multiple of its own quantum is a float: rounding leaves it.\<close>

lemma round_pos_exact:
  assumes "0 < x" "x < pow2 1024" "x / quantum x = of_int n"
  shows "round_pos x = Finite x"
proof -
  have "(of_int (round_half_even (x / quantum x)) :: rat) = x / quantum x"
    by (simp add: assms(3))
  then have m: "of_int (round_half_even (x / quantum x)) * quantum x = x"
    by simp
  then have "round_pos x \<noteq> PosInf"
    using round_pos_overflow_iff [OF assms(1)] assms(2) by simp
  with round_pos_cases [of x] m show ?thesis by simp
qed

lemma round_pos_dyadic:
  assumes "0 < n" "n < 2 ^ 53" "- 1074 \<le> k" "of_int n * pow2 k < pow2 1024"
  shows "round_pos (of_int n * pow2 k) = Finite (of_int n * pow2 k)"
proof -
  define x :: rat where "x = of_int n * pow2 k"
  have x: "0 < x" using assms(1) by (simp add: x_def)
  have "(of_int n :: rat) < of_int (2 ^ 53)" using assms(2) by (simp only: of_int_less_iff)
  then have "x < pow2 53 * pow2 k" unfolding x_def pow2_53 by (intro mult_strict_right_mono) simp_all
  then have "x < pow2 (53 + k)" by (simp only: pow2_add)
  then have "ilog2 x < 53 + k" by (rule ilog2_less [OF x])
  then have p: "max (ilog2 x) (- 1022) - 52 \<le> k" using assms(3) by simp
  define j where "j = nat (k - (max (ilog2 x) (- 1022) - 52))"
  have "pow2 k = pow2 (int j) * quantum x"
    unfolding quantum_def using p by (simp add: j_def flip: pow2_add)
  then have "of_int n * pow2 k = of_int n * pow2 (int j) * quantum x" by simp
  then have "x = of_int n * pow2 (int j) * quantum x" unfolding x_def .
  then have "x / quantum x = of_int n * pow2 (int j) * quantum x / quantum x" by simp
  also have "\<dots> = of_int n * pow2 (int j)" by simp
  also have "\<dots> = of_int (n * 2 ^ j)" by (simp add: pow2_nat)
  finally have "x / quantum x = of_int (n * 2 ^ j)" .
  from round_pos_exact [OF x _ this] assms(4) show ?thesis by (simp add: x_def)
qed

lemma round64_minus: "round64 (- x) = fneg (round64 x)"
proof -
  have "fneg (fneg y) = y" for y by (cases y) simp_all
  then show ?thesis by (simp add: round64_def)
qed

lemma round64_dyadic:
  assumes "\<bar>n\<bar> < 2 ^ 53" "- 1074 \<le> k" "of_int \<bar>n\<bar> * pow2 k < pow2 1024"
  shows "round64 (of_int n * pow2 k) = Finite (of_int n * pow2 k)"
proof -
  consider "n = 0" | "0 < n" | "n < 0" by linarith
  then show ?thesis
  proof cases
    case 1
    then show ?thesis by (simp add: round64_def)
  next
    case 2
    then have "0 < of_int n * pow2 k" by simp
    moreover have "round_pos (of_int n * pow2 k) = Finite (of_int n * pow2 k)"
      using round_pos_dyadic [of n k] assms 2 by simp
    ultimately show ?thesis by (simp add: round64_def)
  next
    case 3
    then have neg: "of_int n * pow2 k < 0" by (simp add: mult_less_0_iff)
    have "round_pos (of_int (- n) * pow2 k) = Finite (of_int (- n) * pow2 k)"
      using round_pos_dyadic [of "- n" k] assms 3 by simp
    then have "round_pos (- (of_int n * pow2 k)) = Finite (- (of_int n * pow2 k))" by simp
    with neg show ?thesis by (simp add: round64_def)
  qed
qed

text \<open>An integer of magnitude up to \<open>2 ^ 53\<close> is a float.\<close>

lemma round64_of_int:
  assumes "\<bar>i\<bar> \<le> 2 ^ 53"
  shows "round64 (of_int i) = Finite (of_int i)"
proof (cases "\<bar>i\<bar> = 2 ^ 53")
  case True
  have p: "of_int 1 * pow2 53 = (of_int (2 ^ 53) :: rat)" by (simp add: pow2_53)
  have "of_int \<bar>1\<bar> * pow2 53 < pow2 1024" using pow2_less [of 53 1024] by simp
  from round64_dyadic [of 1 53, OF _ _ this]
  have 1: "round64 (of_int (2 ^ 53)) = Finite (of_int (2 ^ 53))" by (simp only: p) simp
  from True consider "i = 2 ^ 53" | "i = - (2 ^ 53)" by linarith
  then show ?thesis
  proof cases
    case 1
    with \<open>round64 (of_int (2 ^ 53)) = Finite (of_int (2 ^ 53))\<close> show ?thesis by simp
  next
    case 2
    then have "round64 (of_int i) = fneg (round64 (of_int (2 ^ 53)))"
      using round64_minus [of "of_int (2 ^ 53)"] by simp
    with 1 2 show ?thesis by simp
  qed
next
  case False
  with assms have a: "\<bar>i\<bar> < 2 ^ 53" by linarith
  then have "(of_int \<bar>i\<bar> :: rat) < of_int (2 ^ 53)" by (simp only: of_int_less_iff)
  also have "\<dots> = pow2 53" by (simp only: pow2_53)
  also have "\<dots> < pow2 1024" by (intro pow2_less) simp
  finally have "of_int \<bar>i\<bar> * pow2 0 < pow2 1024" by (simp add: pow2_def)
  from round64_dyadic [of i 0, OF a _ this] show ?thesis by (simp add: pow2_def)
qed

lemma float_of_int_exact: "\<bar>i\<bar> \<le> 2 ^ 53 \<Longrightarrow> float_of_int i = Inr (Finite (of_int i))"
  by (simp add: float_of_int_def finite_or_overflow_def round64_of_int)

lemma pow2_1024_int: "pow2 1024 - pow2 970 = of_int (2 ^ 1024 - 2 ^ 970)"
  by (simp add: pow2_def)

text \<open>
  The conversion of an integer that is not negative: a float for an integer below
  \<open>2 ^ 1024 - 2 ^ 970\<close>, OverflowError from there on.
\<close>

lemma float_of_int_overflow:
  assumes "2 ^ 1024 - 2 ^ 970 \<le> i"
  shows "float_of_int i = Inl OverflowError"
proof -
  have "(of_int (2 ^ 1024 - 2 ^ 970) :: rat) \<le> of_int i"
    using assms by (simp only: of_int_le_iff)
  then have a: "pow2 1024 - pow2 970 \<le> of_int i" by (simp only: pow2_1024_int)
  have "0 < i" using assms by simp
  then have "(0::rat) < of_int i" by simp
  with round_pos_overflow [OF a] show ?thesis
    by (simp add: float_of_int_def finite_or_overflow_def round64_def)
qed

lemma float_of_int_finite:
  assumes "0 \<le> i" "i < 2 ^ 1024 - 2 ^ 970"
  shows "\<exists>r. float_of_int i = Inr (Finite r) \<and> 0 \<le> r \<and> r \<le> pow2 1024 - pow2 971"
proof (cases "i = 0")
  case True
  have "pow2 971 \<le> pow2 1024" by (intro pow2_mono) simp
  then show ?thesis
    using True by (simp add: float_of_int_def finite_or_overflow_def round64_def)
next
  case False
  with assms(1) have "0 < i" by simp
  then have x: "(0::rat) < of_int i" by simp
  have "(of_int i :: rat) < of_int (2 ^ 1024 - 2 ^ 970)"
    using assms(2) by (simp only: of_int_less_iff)
  then have "of_int i < pow2 1024 - pow2 970" by (simp only: pow2_1024_int)
  from round_pos_finite [OF x this] x show ?thesis
    by (auto simp: float_of_int_def finite_or_overflow_def round64_def)
qed

lemma float_of_int_lower:
  assumes "pow2 k \<le> of_int i" "- 1022 \<le> k" "float_of_int i = Inr (Finite r)"
  shows "pow2 k \<le> r"
proof -
  have x: "(0::rat) < of_int i" using assms(1) pow2_pos [of k] by linarith
  from round_pos_lower [OF assms(1,2)] assms(3) x show ?thesis
    by (auto simp: float_of_int_def finite_or_overflow_def round64_def)
qed

lemma py_then_simps [simp]:
  "py_then (Inl e) f = Inl e" "py_then (Inr a) f = f a"
  by (simp_all add: py_then_def)


section \<open>Properties of counter\<close>

lemma upt_affine_Cons:
  "map (\<lambda>k. s + int k * d) [0..<Suc n] = s # map (\<lambda>k. (s + d) + int k * d) [0..<n]"
  by (simp add: upt_rec [of 0 "Suc n"] map_Suc_upt [symmetric] algebra_simps del: upt_Suc)

lemma counter_take_unbounded:
  "counter_take n \<lparr>current = s, end' = None, step = d\<rparr> = map (\<lambda>k. s + int k * d) [0..<n]"
proof (induction n arbitrary: s)
  case 0
  show ?case by simp
next
  case (Suc n)
  show ?case
    unfolding upt_affine_Cons
    using Suc.IH [of "s + d"] by (simp add: counter_next_def counter_continues_def)
qed

text \<open>
  With a positive step and a bound other than \<open>0\<close> the generator stops after exactly the
  \<open>n\<close> values below the bound. The induction is on the distance to the bound.
\<close>

lemma counter_drain_bounded:
  assumes "0 < d" and "e \<noteq> 0"
  shows "\<exists>n. counter_drain (Suc n) \<lparr>current = s, end' = Some e, step = d\<rparr>
             = Some (map (\<lambda>k. s + int k * d) [0..<n])
           \<and> (\<forall>k. s + int k * d < e \<longleftrightarrow> k < n)"
proof (induction "nat (e - s)" arbitrary: s rule: less_induct)
  case less
  show ?case
  proof (cases "s < e")
    case False
    have "\<And>k. \<not> s + int k * d < e"
    proof -
      fix k
      have "0 \<le> int k * d" using assms(1) by simp
      then show "\<not> s + int k * d < e" using False by linarith
    qed
    then have "counter_drain (Suc 0) \<lparr>current = s, end' = Some e, step = d\<rparr>
             = Some (map (\<lambda>k. s + int k * d) [0..<0])
           \<and> (\<forall>k. s + int k * d < e \<longleftrightarrow> k < 0)"
      using False by (simp add: counter_next_def counter_continues_def)
    then show ?thesis by blast
  next
    case True
    then have "nat (e - (s + d)) < nat (e - s)" using assms(1) by linarith
    from less [OF this] obtain n where
      dr: "counter_drain (Suc n) \<lparr>current = s + d, end' = Some e, step = d\<rparr>
             = Some (map (\<lambda>k. (s + d) + int k * d) [0..<n])"
      and ch: "\<forall>k. (s + d) + int k * d < e \<longleftrightarrow> k < n" by blast
    have a: "counter_drain (Suc (Suc n)) \<lparr>current = s, end' = Some e, step = d\<rparr>
             = Some (map (\<lambda>k. s + int k * d) [0..<Suc n])"
      unfolding upt_affine_Cons using True assms(2) dr
      by (subst counter_drain.simps(2)) (simp add: counter_next_def counter_continues_def)
    have b: "\<forall>k. s + int k * d < e \<longleftrightarrow> k < Suc n"
    proof
      fix k
      show "s + int k * d < e \<longleftrightarrow> k < Suc n"
      proof (cases k)
        case 0
        then show ?thesis using True by simp
      next
        case (Suc j)
        then show ?thesis using ch [rule_format, of j] by (simp add: algebra_simps)
      qed
    qed
    from a b show ?thesis by blast
  qed
qed

text \<open>The examples of a bounded and of an unbounded counter, evaluated.\<close>

lemma counter_examples:
  "counter_drain 4 (counter 0 (Some 3) 1) = Some [0, 1, 2]"
  "counter_drain 3 (counter 1 (Some 6) 3) = Some [1, 4]"
  "counter_take 4 (counter 5 None 2) = [5, 7, 9, 11]"
  by (simp_all add: counter_def counter_next_def counter_continues_def numeral_nat)

text \<open>
  Claim C4, as stated, for every start, step and bound: \<open>counter(start, end, step)\<close> yields
  exactly the integers \<open>start, start + step, ...\<close> below \<open>end\<close> and stops. It fails in
  two places. With \<open>end = 0\<close> the truthiness test \<open>end and ...\<close> is false at once, so
  \<open>counter(-1, 0, 1)\<close> yields nothing although \<open>-1 < 0\<close>. With \<open>step = 0\<close> the
  generator \<open>counter(0, 1, 0)\<close> yields \<open>0\<close> and is back in the state it started from,
  so it never stops.
\<close>

theorem counter_claim_counterexample:
  "counter_next (counter (- 1) (Some 0) 1) = None
   \<and> counter_next (counter 0 (Some 1) 0) = Some (0, counter 0 (Some 1) 0)"
  by (simp add: counter_def counter_next_def counter_continues_def)

text \<open>
  Claim C4, amended: for every start, every positive step and every bound \<open>end\<close> that is
  present and not \<open>0\<close>, the generator yields exactly the integers
  \<open>start + k * step\<close> (\<open>k = 0, 1, ...\<close>) that are strictly below \<open>end\<close>, in this order,
  and then stops; when \<open>end\<close> is absent it yields \<open>start + k * step\<close> for every \<open>k\<close>,
  so the sequence is infinite.
\<close>

theorem counter_yields:
  "(0 < d \<and> e \<noteq> 0 \<longrightarrow>
      (\<exists>n. counter_drain (Suc n) (counter s (Some e) d)
               = Some (map (\<lambda>k. s + int k * d) [0..<n])
           \<and> (\<forall>k. s + int k * d < e \<longleftrightarrow> k < n)))
   \<and> (\<forall>n. counter_take n (counter s None d) = map (\<lambda>k. s + int k * d) [0..<n])"
  using counter_drain_bounded [of d e s] counter_take_unbounded [of _ s d]
  by (simp add: counter_def)

theorem counter_yields_witness:
  "(0::int) < 2 \<and> (7::int) \<noteq> 0
   \<and> (\<exists>n. counter_drain (Suc n) (counter 1 (Some 7) 2)
               = Some (map (\<lambda>k. 1 + int k * 2) [0..<n])
           \<and> (\<forall>k. 1 + int k * 2 < (7::int) \<longleftrightarrow> k < n))
   \<and> (\<forall>n. counter_take n (counter 1 None 2) = map (\<lambda>k. 1 + int k * 2) [0..<n])"
  using counter_yields [of 2 7 1] by simp

section \<open>Properties of Meter\<close>

lemma Meter_init_fields:
  "max' Meter_init = None" "min' Meter_init = None" "sum' Meter_init = PyLong 0"
  "count Meter_init = 0"
  by (simp_all add: Meter_init_def reset_def)

text \<open>
  What one \<open>update\<close> does to the fields: \<open>max\<close> and \<open>min\<close> are set before the sum is
  touched, and the update raises exactly when the addition does.
\<close>

lemma update_max_min:
  "max' (snd (update m v))
     = (case max' m of None \<Rightarrow> Some v | Some a \<Rightarrow> if py_gt v a then Some v else Some a)"
  "min' (snd (update m v))
     = (case min' m of None \<Rightarrow> Some v | Some a \<Rightarrow> if py_lt v a then Some v else Some a)"
  by (auto simp: update_def Let_def split: option.splits sum.splits)

lemma update_sum:
  "py_add (sum' m) v = Inr s \<Longrightarrow>
     fst (update m v) = Inr () \<and> sum' (snd (update m v)) = s
     \<and> count (snd (update m v)) = count m + 1"
  "py_add (sum' m) v = Inl e \<Longrightarrow> fst (update m v) = Inl e"
  by (auto simp: update_def Let_def split: option.splits sum.splits)

lemma update_all_accumulate:
  "accumulate (sum' m) vals = Inr s \<Longrightarrow>
     \<exists>M. update_all m vals = (Inr (), M) \<and> sum' M = s \<and> count M = count m + int (length vals)"
proof (induction vals arbitrary: m)
  case Nil
  then show ?case by simp
next
  case (Cons v vals)
  from Cons.prems obtain s' where s': "py_add (sum' m) v = Inr s'" "accumulate s' vals = Inr s"
    by (auto split: sum.splits)
  obtain r m' where u: "update m v = (r, m')" by (cases "update m v")
  from update_sum(1) [OF s'(1)] u
  have m': "r = Inr ()" "sum' m' = s'" "count m' = count m + 1" by simp_all
  from Cons.IH [of m'] s'(2) m'(2) obtain M where
    "update_all m' vals = (Inr (), M)" "sum' M = s" "count M = count m' + int (length vals)"
    by auto
  then show ?case using u m' by simp
qed

lemma update_all_raises:
  "accumulate (sum' m) vals = Inl e \<Longrightarrow> fst (update_all m vals) = Inl e"
proof (induction vals arbitrary: m)
  case Nil
  then show ?case by simp
next
  case (Cons v vals)
  obtain r m' where u: "update m v = (r, m')" by (cases "update m v")
  show ?case
  proof (cases "py_add (sum' m) v")
    case (Inl e')
    with Cons.prems have "e' = e" by simp
    with update_sum(2) [OF Inl] u show ?thesis by simp
  next
    case (Inr s')
    with Cons.prems have a: "accumulate s' vals = Inl e" by simp
    from update_sum(1) [OF Inr] u have m': "r = Inr ()" "sum' m' = s'" by simp_all
    from Cons.IH [of m'] a m'(2) have "fst (update_all m' vals) = Inl e" by simp
    then show ?thesis using u m' by simp
  qed
qed

lemma update_all_returns:
  assumes "update_all m vals = (Inr (), M)"
  shows "accumulate (sum' m) vals = Inr (sum' M) \<and> count M = count m + int (length vals)"
proof (cases "accumulate (sum' m) vals")
  case (Inl e)
  from update_all_raises [OF this] assms show ?thesis by simp
next
  case (Inr s)
  from update_all_accumulate [OF this] assms show ?thesis by (simp add: Inr)
qed

text \<open>
  The comparison of scalars that are not NaN is a strict linear order; this is what makes
  the kept value the greatest, or the least, of the values seen.
\<close>

lemma flt_irrefl: "\<not> flt x x"
  by (cases x) simp_all

lemma flt_chain:
  "x \<noteq> NaN \<Longrightarrow> a \<noteq> NaN \<Longrightarrow> v \<noteq> NaN \<Longrightarrow> \<not> flt a x \<Longrightarrow> flt a v \<Longrightarrow> \<not> flt v x"
  by (cases x; cases a; cases v) simp_all

lemma flt_chain':
  "x \<noteq> NaN \<Longrightarrow> a \<noteq> NaN \<Longrightarrow> v \<noteq> NaN \<Longrightarrow> \<not> flt x a \<Longrightarrow> flt v a \<Longrightarrow> \<not> flt x v"
  by (cases x; cases a; cases v) simp_all

lemma update_all_max:
  assumes "update_all m vals = (r, M)" "\<forall>v\<in>set vals. exact v \<noteq> NaN"
    and "max' m = Some a" "a \<in> S" "\<forall>v\<in>S. exact v \<noteq> NaN \<and> \<not> py_gt v a"
    and "r = Inr ()"
  shows "\<exists>b\<in>S \<union> set vals. max' M = Some b \<and> (\<forall>v\<in>S \<union> set vals. \<not> py_gt v b)"
  using assms
proof (induction vals arbitrary: m a S)
  case Nil
  then show ?case by auto
next
  case (Cons v vals)
  obtain r' m' where u: "update m v = (r', m')" by (cases "update m v")
  with Cons.prems(1,6) have r': "r' = Inr ()" and rest: "update_all m' vals = (r, M)"
    by (auto split: sum.splits)
  define b where "b = (if py_gt v a then v else a)"
  have mx: "max' m' = Some b"
    using update_max_min(1) [of m v] u Cons.prems(3) by (simp add: b_def)
  have v: "exact v \<noteq> NaN" using Cons.prems(2) by simp
  have a: "exact a \<noteq> NaN" using Cons.prems(4,5) by blast
  have bS: "b \<in> insert v S" using Cons.prems(4) by (simp add: b_def)
  have inv: "\<forall>x\<in>insert v S. exact x \<noteq> NaN \<and> \<not> py_gt x b"
  proof
    fix x
    assume x: "x \<in> insert v S"
    then have xn: "exact x \<noteq> NaN" using v Cons.prems(5) by auto
    have "\<not> py_gt x b"
    proof (cases "py_gt v a")
      case True
      then have b: "b = v" by (simp add: b_def)
      show ?thesis
      proof (cases "x = v")
        case True
        then show ?thesis by (simp add: b py_gt_def flt_irrefl)
      next
        case False
        with x have "\<not> py_gt x a" using Cons.prems(5) by auto
        with \<open>py_gt v a\<close> flt_chain [OF xn a v] show ?thesis
          by (simp add: b py_gt_def)
      qed
    next
      case False
      then have b: "b = a" by (simp add: b_def)
      from x False Cons.prems(5) show ?thesis by (auto simp: b)
    qed
    with xn show "exact x \<noteq> NaN \<and> \<not> py_gt x b" by simp
  qed
  from Cons.IH [OF rest _ mx bS inv Cons.prems(6)] Cons.prems(2)
  show ?case by simp
qed

lemma update_all_min:
  assumes "update_all m vals = (r, M)" "\<forall>v\<in>set vals. exact v \<noteq> NaN"
    and "min' m = Some a" "a \<in> S" "\<forall>v\<in>S. exact v \<noteq> NaN \<and> \<not> py_lt v a"
    and "r = Inr ()"
  shows "\<exists>b\<in>S \<union> set vals. min' M = Some b \<and> (\<forall>v\<in>S \<union> set vals. \<not> py_lt v b)"
  using assms
proof (induction vals arbitrary: m a S)
  case Nil
  then show ?case by auto
next
  case (Cons v vals)
  obtain r' m' where u: "update m v = (r', m')" by (cases "update m v")
  with Cons.prems(1,6) have r': "r' = Inr ()" and rest: "update_all m' vals = (r, M)"
    by (auto split: sum.splits)
  define b where "b = (if py_lt v a then v else a)"
  have mx: "min' m' = Some b"
    using update_max_min(2) [of m v] u Cons.prems(3) by (simp add: b_def)
  have v: "exact v \<noteq> NaN" using Cons.prems(2) by simp
  have a: "exact a \<noteq> NaN" using Cons.prems(4,5) by blast
  have bS: "b \<in> insert v S" using Cons.prems(4) by (simp add: b_def)
  have inv: "\<forall>x\<in>insert v S. exact x \<noteq> NaN \<and> \<not> py_lt x b"
  proof
    fix x
    assume x: "x \<in> insert v S"
    then have xn: "exact x \<noteq> NaN" using v Cons.prems(5) by auto
    have "\<not> py_lt x b"
    proof (cases "py_lt v a")
      case True
      then have b: "b = v" by (simp add: b_def)
      show ?thesis
      proof (cases "x = v")
        case True
        then show ?thesis by (simp add: b py_lt_def flt_irrefl)
      next
        case False
        with x have "\<not> py_lt x a" using Cons.prems(5) by auto
        with \<open>py_lt v a\<close> flt_chain' [OF xn a v] show ?thesis
          by (simp add: b py_lt_def)
      qed
    next
      case False
      then have b: "b = a" by (simp add: b_def)
      from x False Cons.prems(5) show ?thesis by (auto simp: b)
    qed
    with xn show "exact x \<noteq> NaN \<and> \<not> py_lt x b" by simp
  qed
  from Cons.IH [OF rest _ mx bS inv Cons.prems(6)] Cons.prems(2)
  show ?case by simp
qed

text \<open>
  A fresh meter: the first observation becomes \<open>max\<close> and \<open>min\<close>, and the updates that
  follow keep the greatest and the least.
\<close>

lemma update_all_fresh:
  assumes "update_all Meter_init vals = (Inr (), M)" "vals \<noteq> []" "NaN \<notin> set (map exact vals)"
  shows "\<exists>a\<in>set vals. max' M = Some a \<and> (\<forall>v\<in>set vals. \<not> py_gt v a)"
    and "\<exists>a\<in>set vals. min' M = Some a \<and> (\<forall>v\<in>set vals. \<not> py_lt v a)"
proof -
  from assms(2) obtain v vs where vals: "vals = v # vs" by (cases vals) simp_all
  obtain r' m' where u: "update Meter_init v = (r', m')" by (cases "update Meter_init v")
  with assms(1) have rest: "update_all m' vs = (Inr (), M)"
    by (auto simp: vals split: sum.splits)
  have nan: "\<forall>x\<in>set vs. exact x \<noteq> NaN" and v: "exact v \<noteq> NaN"
    using assms(3) by (auto simp: vals image_iff)
  have mx: "max' m' = Some v" and mn: "min' m' = Some v"
    using update_max_min [of Meter_init v] u by (simp_all add: Meter_init_fields)
  have "\<forall>x\<in>{v}. exact x \<noteq> NaN \<and> \<not> py_gt x v" using v by (simp add: py_gt_def flt_irrefl)
  from update_all_max [OF rest nan mx _ this]
  show "\<exists>a\<in>set vals. max' M = Some a \<and> (\<forall>v\<in>set vals. \<not> py_gt v a)" by (simp add: vals)
  have "\<forall>x\<in>{v}. exact x \<noteq> NaN \<and> \<not> py_lt x v" using v by (simp add: py_lt_def flt_irrefl)
  from update_all_min [OF rest nan mn _ this]
  show "\<exists>a\<in>set vals. min' M = Some a \<and> (\<forall>v\<in>set vals. \<not> py_lt v a)" by (simp add: vals)
qed

text \<open>
  Integer observations: the sum is exact, no update raises, and \<open>average()\<close> is the one
  division of two integers, the exact mean rounded to the nearest float.
\<close>

lemma accumulate_ints:
  "accumulate (PyLong s) (map PyLong ints) = Inr (PyLong (s + sum_list ints))"
  by (induction ints arbitrary: s) (simp_all add: py_add_def add.assoc)

lemma update_all_ints:
  assumes "ints \<noteq> []"
  shows "\<exists>M. update_all Meter_init (map PyLong ints) = (Inr (), M)
           \<and> max' M = Some (PyLong (Max (set ints))) \<and> min' M = Some (PyLong (Min (set ints)))
           \<and> sum' M = PyLong (sum_list ints) \<and> count M = int (length ints)"
proof -
  have "accumulate (sum' Meter_init) (map PyLong ints) = Inr (PyLong (sum_list ints))"
    using accumulate_ints [of 0 ints] by (simp add: Meter_init_fields)
  from update_all_accumulate [OF this] obtain M where
    M: "update_all Meter_init (map PyLong ints) = (Inr (), M)" "sum' M = PyLong (sum_list ints)"
      "count M = int (length ints)"
    by (auto simp: Meter_init_fields)
  have ne: "map PyLong ints \<noteq> []" using assms by simp
  have nan: "NaN \<notin> set (map exact (map PyLong ints))" by (auto simp: exact_def)
  from update_all_fresh(1) [OF M(1) ne nan] obtain i where
    i: "i \<in> set ints" "max' M = Some (PyLong i)" "\<forall>j\<in>set ints. \<not> i < j"
    by (auto simp: py_gt_def exact_def)
  then have "Max (set ints) = i" by (intro Max_eqI) auto
  moreover from update_all_fresh(2) [OF M(1) ne nan] obtain k where
    k: "k \<in> set ints" "min' M = Some (PyLong k)" "\<forall>j\<in>set ints. \<not> j < k"
    by (auto simp: py_lt_def exact_def)
  then have "Min (set ints) = k" by (intro Min_eqI) auto
  ultimately show ?thesis using M i(2) k(2) by blast
qed

text \<open>
  Float observations: no update raises, and the sum is the float the additions give, one
  rounding each, from \<open>float(0)\<close> on.
\<close>

lemma accumulate_floats:
  "accumulate (PyFloat x) (map PyFloat fs) = Inr (PyFloat (foldl fadd x fs))"
  by (induction fs arbitrary: x) (simp_all add: py_add_def float_op_def to_float_def)

lemma accumulate_floats_fresh:
  assumes "fs \<noteq> []"
  shows "accumulate (PyLong 0) (map PyFloat fs) = Inr (PyFloat (foldl fadd (Finite 0) fs))"
proof -
  from assms obtain f fs' where fs: "fs = f # fs'" by (cases fs) simp_all
  have "float_of_int 0 = Inr (Finite 0)" using float_of_int_exact [of 0] by simp
  then show ?thesis
    by (simp add: fs py_add_def float_op_def to_float_def accumulate_floats)
qed

lemma float_of_count:
  assumes "0 < n" "n \<le> 2 ^ 53"
  shows "float_of_int (int n) = Inr (Finite (of_nat n))" "Finite (of_nat n) \<noteq> Finite 0"
proof -
  have "int n \<le> 2 ^ 53" using assms(2) by (metis of_nat_le_iff of_nat_numeral of_nat_power)
  then have "\<bar>int n\<bar> \<le> 2 ^ 53" by simp
  from float_of_int_exact [OF this] show "float_of_int (int n) = Inr (Finite (of_nat n))" by simp
  show "Finite (of_nat n) \<noteq> Finite 0" using assms(1) by simp
qed

lemma update_all_floats:
  assumes "fs \<noteq> []" "length fs \<le> 2 ^ 53"
  shows "\<exists>M. update_all Meter_init (map PyFloat fs) = (Inr (), M)
           \<and> sum' M = PyFloat (foldl fadd (Finite 0) fs)
           \<and> average M
               = Inr (PyFloat (fdiv (foldl fadd (Finite 0) fs) (Finite (of_nat (length fs)))))"
proof -
  have "accumulate (sum' Meter_init) (map PyFloat fs) = Inr (PyFloat (foldl fadd (Finite 0) fs))"
    using accumulate_floats_fresh [OF assms(1)] by (simp add: Meter_init_fields)
  from update_all_accumulate [OF this] obtain M where
    M: "update_all Meter_init (map PyFloat fs) = (Inr (), M)"
      "sum' M = PyFloat (foldl fadd (Finite 0) fs)" "count M = int (length fs)"
    by (auto simp: Meter_init_fields)
  have "0 < length fs" using assms(1) by simp
  note c = float_of_count [OF this assms(2)]
  have "average M = Inr (PyFloat (fdiv (foldl fadd (Finite 0) fs) (Finite (of_nat (length fs)))))"
    using c by (simp add: average_def M py_truediv_def float_op_def to_float_def float_truediv_def)
  with M show ?thesis by blast
qed

text \<open>
  A NaN compares false with everything: once it is the first observation, it stays in
  \<open>max\<close> and \<open>min\<close>, whatever follows.
\<close>

lemma update_all_nan_first:
  "max' (snd (update_all Meter_init [PyFloat NaN, PyFloat (Finite 1), PyFloat (Finite 2)]))
     = Some (PyFloat NaN)"
  "min' (snd (update_all Meter_init [PyFloat NaN, PyFloat (Finite 1), PyFloat (Finite 2)]))
     = Some (PyFloat NaN)"
  by code_simp+

text \<open>
  Claim C5, as stated: \<open>average()\<close> returns the arithmetic mean of the observations. For
  the floats \<open>0.1\<close>, \<open>0.2\<close> and \<open>0.3\<close> the running sum is rounded at each addition and
  \<open>average()\<close> returns \<open>0.20000000000000004\<close>, which is not the mean of the three floats,
  and is not the float nearest to it either: that one is \<open>0.2\<close>.
\<close>

theorem Meter_average_counterexample:
  "round64 (1 / 10) = Finite (3602879701896397 / 36028797018963968)
   \<and> round64 (2 / 10) = Finite (3602879701896397 / 18014398509481984)
   \<and> round64 (3 / 10) = Finite (5404319552844595 / 18014398509481984)
   \<and> fst (update_all Meter_init
            [PyFloat (Finite (3602879701896397 / 36028797018963968)),
             PyFloat (Finite (3602879701896397 / 18014398509481984)),
             PyFloat (Finite (5404319552844595 / 18014398509481984))]) = Inr ()
   \<and> average (snd (update_all Meter_init
            [PyFloat (Finite (3602879701896397 / 36028797018963968)),
             PyFloat (Finite (3602879701896397 / 18014398509481984)),
             PyFloat (Finite (5404319552844595 / 18014398509481984))]))
       = Inr (PyFloat (Finite (7205759403792795 / 36028797018963968)))
   \<and> (3602879701896397 / 36028797018963968 + 3602879701896397 / 18014398509481984
        + 5404319552844595 / 18014398509481984) / 3
       = (21617278211378381 / 108086391056891904 :: rat)
   \<and> (7205759403792795 / 36028797018963968 :: rat) \<noteq> 21617278211378381 / 108086391056891904
   \<and> round64 (21617278211378381 / 108086391056891904)
       = Finite (3602879701896397 / 18014398509481984)
   \<and> (7205759403792795 / 36028797018963968 :: rat) \<noteq> 3602879701896397 / 18014398509481984"
  by code_simp

text \<open>
  Claim C5, amended. For every non-empty sequence of integer observations folded into a
  fresh Meter, no update raises, \<open>max\<close> and \<open>min\<close> are the maximum and the minimum of
  the sequence, and \<open>average()\<close> is the arithmetic mean rounded to the nearest float, or
  OverflowError when that is not finite. For every non-empty sequence of at most
  \<open>2 ^ 53\<close> float observations no update raises and \<open>average()\<close> is the float quotient
  of the running sum by the count, the running sum being rounded at each addition. For
  every non-empty sequence of observations none of which is a NaN, folded with no update
  raising, \<open>max\<close> and \<open>min\<close> are observations of the sequence that no observation is
  greater than, respectively less than, and \<open>average()\<close> is Python's quotient of the sum
  the updates have accumulated by the number of observations. On a Meter with no
  observation, fresh or after \<open>reset\<close>, \<open>average()\<close> raises ZeroDivisionError.
\<close>

theorem Meter_average_max_min:
  "(ints \<noteq> [] \<longrightarrow>
      (\<exists>M. update_all Meter_init (map PyLong ints) = (Inr (), M)
         \<and> max' M = Some (PyLong (Max (set ints))) \<and> min' M = Some (PyLong (Min (set ints)))
         \<and> average M
             = map_sum id PyFloat
                 (finite_or_overflow (round64 (of_int (sum_list ints) / of_nat (length ints))))))
   \<and> (fs \<noteq> [] \<and> length fs \<le> 2 ^ 53 \<longrightarrow>
      (\<exists>M. update_all Meter_init (map PyFloat fs) = (Inr (), M)
         \<and> average M
             = Inr (PyFloat (fdiv (foldl fadd (Finite 0) fs) (Finite (of_nat (length fs)))))))
   \<and> (vals \<noteq> [] \<and> NaN \<notin> set (map exact vals) \<and> update_all Meter_init vals = (Inr (), M) \<longrightarrow>
        (\<exists>a\<in>set vals. max' M = Some a \<and> (\<forall>v\<in>set vals. \<not> py_gt v a))
        \<and> (\<exists>a\<in>set vals. min' M = Some a \<and> (\<forall>v\<in>set vals. \<not> py_lt v a))
        \<and> accumulate (PyLong 0) vals = Inr (sum' M)
        \<and> average M = py_truediv (sum' M) (PyLong (int (length vals))))
   \<and> average Meter_init = Inl ZeroDivisionError
   \<and> average (reset m) = Inl ZeroDivisionError"
proof (intro conjI impI)
  show "average Meter_init = Inl ZeroDivisionError"
    by (simp add: average_def py_truediv_def int_truediv_def Meter_init_fields)
  show "average (reset m) = Inl ZeroDivisionError"
    by (simp add: average_def py_truediv_def int_truediv_def reset_def)
next
  assume "ints \<noteq> []"
  from update_all_ints [OF this] obtain M where
    M: "update_all Meter_init (map PyLong ints) = (Inr (), M)"
      "max' M = Some (PyLong (Max (set ints)))" "min' M = Some (PyLong (Min (set ints)))"
      "sum' M = PyLong (sum_list ints)" "count M = int (length ints)"
    by blast
  have "average M
      = map_sum id PyFloat
          (finite_or_overflow (round64 (of_int (sum_list ints) / of_nat (length ints))))"
    using \<open>ints \<noteq> []\<close>
    by (simp add: average_def M py_truediv_def int_truediv_def split: sum.splits)
  with M show "\<exists>M. update_all Meter_init (map PyLong ints) = (Inr (), M)
         \<and> max' M = Some (PyLong (Max (set ints))) \<and> min' M = Some (PyLong (Min (set ints)))
         \<and> average M
             = map_sum id PyFloat
                 (finite_or_overflow (round64 (of_int (sum_list ints) / of_nat (length ints))))"
    by blast
next
  assume "fs \<noteq> [] \<and> length fs \<le> 2 ^ 53"
  then show "\<exists>M. update_all Meter_init (map PyFloat fs) = (Inr (), M)
         \<and> average M
             = Inr (PyFloat (fdiv (foldl fadd (Finite 0) fs) (Finite (of_nat (length fs)))))"
    using update_all_floats [of fs] by blast
next
  assume a: "vals \<noteq> [] \<and> NaN \<notin> set (map exact vals) \<and> update_all Meter_init vals = (Inr (), M)"
  then show "\<exists>a\<in>set vals. max' M = Some a \<and> (\<forall>v\<in>set vals. \<not> py_gt v a)"
    using update_all_fresh(1) [of vals M] by blast
  from a show "\<exists>a\<in>set vals. min' M = Some a \<and> (\<forall>v\<in>set vals. \<not> py_lt v a)"
    using update_all_fresh(2) [of vals M] by blast
  from a have r: "accumulate (sum' Meter_init) vals = Inr (sum' M)"
    "count M = count Meter_init + int (length vals)"
    using update_all_returns [of Meter_init vals M] by simp_all
  then show "accumulate (PyLong 0) vals = Inr (sum' M)" by (simp add: Meter_init_fields)
  from r(2) show "average M = py_truediv (sum' M) (PyLong (int (length vals)))"
    by (simp add: average_def Meter_init_fields)
qed

theorem Meter_average_max_min_witness:
  "[3, 1, 2] \<noteq> ([] :: int list)
   \<and> (\<exists>M. update_all Meter_init (map PyLong [3, 1, 2]) = (Inr (), M)
         \<and> max' M = Some (PyLong 3) \<and> min' M = Some (PyLong 1)
         \<and> average M = Inr (PyFloat (Finite 2)))
   \<and> [Finite (1 / 2), Finite (1 / 4)] \<noteq> [] \<and> length [Finite (1 / 2), Finite (1 / 4)] \<le> 2 ^ 53
   \<and> (\<exists>M. update_all Meter_init (map PyFloat [Finite (1 / 2), Finite (1 / 4)]) = (Inr (), M)
         \<and> average M = Inr (PyFloat (Finite (3 / 8))))
   \<and> [PyFloat (Finite (1 / 2)), PyLong 2, PyFloat (Finite (1 / 4))] \<noteq> []
   \<and> NaN \<notin> set (map exact [PyFloat (Finite (1 / 2)), PyLong 2, PyFloat (Finite (1 / 4))])
   \<and> update_all Meter_init [PyFloat (Finite (1 / 2)), PyLong 2, PyFloat (Finite (1 / 4))]
       = (Inr (), \<lparr>max' = Some (PyLong 2), min' = Some (PyFloat (Finite (1 / 4))),
                   sum' = PyFloat (Finite (11 / 4)), count = 3\<rparr>)
   \<and> (\<exists>a\<in>set [PyFloat (Finite (1 / 2)), PyLong 2, PyFloat (Finite (1 / 4))].
         Some (PyLong 2) = Some a
         \<and> (\<forall>v\<in>set [PyFloat (Finite (1 / 2)), PyLong 2, PyFloat (Finite (1 / 4))]. \<not> py_gt v a))
   \<and> (\<exists>a\<in>set [PyFloat (Finite (1 / 2)), PyLong 2, PyFloat (Finite (1 / 4))].
         Some (PyFloat (Finite (1 / 4))) = Some a
         \<and> (\<forall>v\<in>set [PyFloat (Finite (1 / 2)), PyLong 2, PyFloat (Finite (1 / 4))]. \<not> py_lt v a))
   \<and> accumulate (PyLong 0) [PyFloat (Finite (1 / 2)), PyLong 2, PyFloat (Finite (1 / 4))]
       = Inr (PyFloat (Finite (11 / 4)))
   \<and> average \<lparr>max' = Some (PyLong 2), min' = Some (PyFloat (Finite (1 / 4))),
               sum' = PyFloat (Finite (11 / 4)), count = 3\<rparr>
       = py_truediv (PyFloat (Finite (11 / 4))) (PyLong 3)
   \<and> average Meter_init = Inl ZeroDivisionError
   \<and> average (reset Meter_init) = Inl ZeroDivisionError"
proof -
  let ?vals = "[PyFloat (Finite (1 / 2)), PyLong 2, PyFloat (Finite (1 / 4))]"
  let ?M = "\<lparr>max' = Some (PyLong 2), min' = Some (PyFloat (Finite (1 / 4))),
             sum' = PyFloat (Finite (11 / 4)), count = 3\<rparr>"
  have 1: "finite_or_overflow (round64 (of_int (sum_list [3, 1, 2]) / of_nat (length [3, 1, 2 :: int])))
      = Inr (Finite 2)"
    by code_simp
  have 2: "fdiv (foldl fadd (Finite 0) [Finite (1 / 2), Finite (1 / 4)])
             (Finite (of_nat (length [Finite (1 / 2), Finite (1 / 4)])))
      = Finite (3 / 8)"
    by code_simp
  have 3: "update_all Meter_init ?vals = (Inr (), ?M)" by code_simp
  have 4: "NaN \<notin> set (map exact ?vals)" by (simp add: exact_def)
  have 5: "Max (set [3, 1, 2 :: int]) = 3" "Min (set [3, 1, 2 :: int]) = 1" by simp_all
  show ?thesis
    using Meter_average_max_min [of "[3, 1, 2]" "[Finite (1 / 2), Finite (1 / 4)]" ?vals ?M Meter_init]
    unfolding 1 2 5 using 3 4
    by simp
qed

section \<open>Properties of exp_moving_avg\<close>


text \<open>
  With a correctly rounding power: two steps divide \<open>5.5\<close> by \<open>1 - 0.1 ** 2\<close>, which
  is the float \<open>0.99\<close>, and give \<open>5.555555555555555\<close>; for \<open>alpha = 10.0\<close> and \<open>400\<close>
  steps the power has no float, and OverflowError is the result.
\<close>

lemma exp_moving_avg_steps_example:
  "exp_moving_avg rounding_pow (PyLong 10) (Some (PyLong 5))
       (PyFloat (Finite (3602879701896397 / 36028797018963968))) (Some 2)
     = Inr (PyFloat (Finite (3127499741229511 / 562949953421312)))"
  by code_simp

lemma exp_moving_avg_overflow_example:
  "exp_moving_avg rounding_pow (PyFloat (Finite 10)) (Some (PyFloat (Finite 5)))
       (PyFloat (Finite 10)) (Some 400)
     = Inl OverflowError"
proof -
  have b: "blended (PyFloat (Finite 10)) (PyFloat (Finite 10)) (PyFloat (Finite 5))
      = Inr (PyFloat (Finite 55))"
    by code_simp
  have n: "float_of_int 400 = Inr (Finite 400)" using float_of_int_exact [of 400] by simp
  have "pow2 1024 - pow2 970 \<le> (10 :: rat) ^ 400" by (simp add: pow2_def)
  from round_pos_overflow [OF this] have "round64 (10 ^ 400) = PosInf"
    by (simp add: round64_def)
  then have "rounding_pow (Finite 10) (Finite 400) = Inl OverflowError"
    by (simp add: rounding_pow_def power_rounded_def finite_or_overflow_def)
  then have "bias_corrected rounding_pow (PyFloat (Finite 55)) (PyFloat (Finite 10)) 400
      = Inl OverflowError"
    by (simp add: bias_corrected_def py_pow_def float_op_def to_float_def n float_power_def)
  then show ?thesis by (simp add: exp_moving_avg_def b)
qed








section \<open>Properties of the Checkpoint callback\<close>

text \<open>
  The example of the specification: with \<open>freq = 2\<close> and epoch-end events for the epochs
  0, 1, 2, 3, a checkpoint is written for the epochs 0 and 2 only.
\<close>

lemma Checkpoint_example:
  "epoch_end_events \<lparr>freq = 2\<rparr> [0, 1, 2, 3] t
     = Inr ([True, False, True, False],
            t\<lparr>saved := saved t @ [Derived (num_epochs t) (num_steps t),
                                   Derived (num_epochs t) (num_steps t)]\<rparr>)"
  by (simp add: on_epoch_end_def py_mod_def checkpoint_def Let_def)

text \<open>
  Claim C9: for every Checkpoint callback with integer frequency \<open>freq\<close> and every
  epoch-end event with epoch index \<open>e\<close> and a trainer, the trainer's \<open>checkpoint\<close> is
  invoked, with no explicit name, exactly when \<open>e % freq == 0\<close> holds; otherwise the
  trainer is left as it is (for \<open>freq = 0\<close> the test itself raises ZeroDivisionError and
  nothing is written). Every other callback event is a no-op.
\<close>

theorem Checkpoint_on_epoch_end:
  "on_epoch_end self e (Some t) =
     (if freq self = 0 then Inl ZeroDivisionError
      else if e mod freq self = 0 then Inr (Some (snd (checkpoint None t)))
      else Inr (Some t))
   \<and> saved (snd (checkpoint None t)) = saved t @ [Derived (num_epochs t) (num_steps t)]
   \<and> ((\<exists>t'. on_epoch_end self e (Some t) = Inr (Some t') \<and> saved t' \<noteq> saved t)
        \<longleftrightarrow> py_mod e (freq self) = Inr 0)
   \<and> ((\<forall>epoch. ev \<noteq> OnEpochEnd epoch) \<longrightarrow> Checkpoint_notify self ev trainer = Inr trainer)
   \<and> Checkpoint_notify self (OnEpochEnd e) trainer = on_epoch_end self e trainer"
proof -
  have a: "on_epoch_end self e (Some t) =
     (if freq self = 0 then Inl ZeroDivisionError
      else if e mod freq self = 0 then Inr (Some (snd (checkpoint None t)))
      else Inr (Some t))"
    by (simp add: on_epoch_end_def py_mod_def)
  have b: "saved (snd (checkpoint None t)) = saved t @ [Derived (num_epochs t) (num_steps t)]"
    by (simp add: checkpoint_def Let_def)
  have c: "(\<exists>t'. on_epoch_end self e (Some t) = Inr (Some t') \<and> saved t' \<noteq> saved t)
        \<longleftrightarrow> py_mod e (freq self) = Inr 0"
    unfolding a using b by (auto simp: py_mod_def)
  have d: "Checkpoint_notify self ev trainer = Inr trainer" if "\<forall>epoch. ev \<noteq> OnEpochEnd epoch"
    using that by (cases ev) (simp_all add: Checkpoint_notify_def Callback_hook_def)
  have e: "Checkpoint_notify self (OnEpochEnd e) trainer = on_epoch_end self e trainer"
    by (simp add: Checkpoint_notify_def)
  from a b c d e show ?thesis by blast
qed

theorem Checkpoint_on_epoch_end_witness:
  "on_epoch_end \<lparr>freq = 2\<rparr> 4 (Some (Trainer_init True False False False False))
     = Inr (Some ((Trainer_init True False False False False)\<lparr>saved := [Derived 0 0]\<rparr>))
   \<and> on_epoch_end \<lparr>freq = 2\<rparr> 3 (Some (Trainer_init True False False False False))
     = Inr (Some (Trainer_init True False False False False))
   \<and> on_epoch_end \<lparr>freq = 0\<rparr> 3 (Some (Trainer_init True False False False False))
     = Inl ZeroDivisionError
   \<and> (\<forall>epoch. OnTrainStart \<noteq> OnEpochEnd epoch)
   \<and> Checkpoint_notify \<lparr>freq = 2\<rparr> OnTrainStart (Some (Trainer_init True False False False False))
     = Inr (Some (Trainer_init True False False False False))"
  using Checkpoint_on_epoch_end [of "\<lparr>freq = 2\<rparr>" 4 "Trainer_init True False False False False"
      OnTrainStart "Some (Trainer_init True False False False False)"]
    Checkpoint_on_epoch_end [of "\<lparr>freq = 2\<rparr>" 3 "Trainer_init True False False False False"
      OnTrainStart "Some (Trainer_init True False False False False)"]
    Checkpoint_on_epoch_end [of "\<lparr>freq = 0\<rparr>" 3 "Trainer_init True False False False False"
      OnTrainStart "Some (Trainer_init True False False False False)"]
  by (simp add: checkpoint_def Let_def Trainer_init_def)

section \<open>Properties of RangeMap\<close>


lemma dict_setitem_keys:
  "map fst (dict_setitem d k v) = (if k \<in> fst ` set d then map fst d else map fst d @ [k])"
  by (induction d) (auto simp: dict_setitem_def)

lemma RangeMap_distinct_aux:
  "distinct (map fst d) \<Longrightarrow> distinct (map fst (foldl (\<lambda>d (k, v). dict_setitem d k v) d items))"
proof (induction items arbitrary: d)
  case Nil
  then show ?case by simp
next
  case (Cons kv items)
  obtain k v where kv: "kv = (k, v)" by (cases kv)
  have "distinct (map fst (dict_setitem d k v))"
    using Cons.prems by (auto simp: dict_setitem_keys)
  from Cons.IH [OF this] show ?case by (simp add: kv)
qed

text \<open>Every map the constructor builds has distinct keys.\<close>

lemma RangeMap_init_distinct: "distinct (map fst (RangeMap_init items))"
  unfolding RangeMap_init_def by (rule RangeMap_distinct_aux) simp

text \<open>The example of the specification.\<close>

lemma RangeMap_example:
  "getitem (RangeMap_init [((Some 0, Some 10), ''low''), ((Some 11, Some 20), ''high'')])
     (Scalar (5::int)) = Inr ''low''"
  "getitem (RangeMap_init [((Some 0, Some 10), ''low''), ((Some 11, Some 20), ''high'')])
     (Scalar (15::int)) = Inr ''high''"
  "getitem (RangeMap_init [((Some 0, Some 10), ''low''), ((Some 11, Some 20), ''high'')])
     (Scalar (25::int)) = Inl KeyError"
  "getitem (RangeMap_init [((Some 0, Some 10), ''low''), ((Some 11, Some 20), ''high'')])
     (Tuple (Some (11::int), Some 20)) = Inr ''high''"
  by (simp_all add: RangeMap_init_def dict_setitem_def dict_getitem_def)



section \<open>Properties of moving_average\<close>

lemma length_running: "length (running add a xs) = length xs"
  by (induction xs arbitrary: a) simp_all

lemma running_nth:
  "i < length xs \<Longrightarrow> running add a xs ! i = foldl add a (take (Suc i) xs)"
proof (induction xs arbitrary: a i)
  case Nil
  then show ?case by simp
next
  case (Cons x xs)
  show ?case
  proof (cases i)
    case 0
    then show ?thesis by simp
  next
    case (Suc j)
    then have "j < length xs" using Cons.prems by simp
    from Cons.IH [OF this, of "add a x"] show ?thesis by (simp add: Suc)
  qed
qed

text \<open>
  The prefix sums: entry \<open>j\<close> is the total of the first \<open>j\<close> elements of \<open>data\<close>, added
  one by one from the left in the element type.
\<close>

lemma prefix_sums_nth:
  "j \<le> length arr \<Longrightarrow> np_cumsum add (np_insert_front arr z) ! j = foldl add z (take j arr)"
  by (cases j) (simp_all add: np_insert_front_def running_nth)

lemma prefix_sums_length: "length (np_cumsum add (np_insert_front arr z)) = Suc (length arr)"
  by (simp add: np_insert_front_def length_running)

text \<open>
  For a window of at least \<open>1\<close> the two slices have the same length, and entry \<open>i\<close> of
  the difference is that of the prefix sums at \<open>i + window\<close> and at \<open>i\<close>.
\<close>

lemma window_sums_positive:
  assumes "1 \<le> w"
  shows "window_sums add sub z arr w
           = Inr (map (\<lambda>i. sub (foldl add z (take (i + nat w) arr)) (foldl add z (take i arr)))
                    [0..<Suc (length arr) - nat w])"
proof -
  let ?cs = "np_cumsum add (np_insert_front arr z)"
  let ?k = "nat w"
  let ?n = "length arr"
  have len: "length ?cs = Suc ?n" by (rule prefix_sums_length)
  have sl_from: "slice_from ?cs w = drop ?k ?cs"
  proof (cases "w \<le> int (Suc ?n)")
    case True
    then show ?thesis
      using assms by (simp add: slice_from_def slice_bound_def len Let_def)
  next
    case False
    then have "Suc ?n \<le> ?k" by linarith
    then have "drop ?k ?cs = []" by (simp add: len)
    then show ?thesis
      using assms False by (simp add: slice_from_def slice_bound_def len Let_def)
  qed
  have sl_upto: "slice_upto ?cs (- w) = take (Suc ?n - ?k) ?cs"
  proof -
    have "nat (max (int (Suc ?n) + - w) 0) = Suc ?n - ?k" using assms by linarith
    then show ?thesis using assms by (simp add: slice_upto_def slice_bound_def len Let_def)
  qed
  have l1: "length (drop ?k ?cs) = Suc ?n - ?k" by (simp add: len)
  have l2: "length (take (Suc ?n - ?k) ?cs) = Suc ?n - ?k" by (simp add: len)
  have sub: "np_subtract sub (slice_from ?cs w) (slice_upto ?cs (- w))
      = Inr (map2 sub (drop ?k ?cs) (take (Suc ?n - ?k) ?cs))"
    unfolding sl_from sl_upto np_subtract_def using l1 l2 by simp
  have "map2 sub (drop ?k ?cs) (take (Suc ?n - ?k) ?cs)
      = map (\<lambda>i. sub (foldl add z (take (i + ?k) arr)) (foldl add z (take i arr)))
          [0..<Suc ?n - ?k]"
  proof (rule nth_equalityI)
    show "length (map2 sub (drop ?k ?cs) (take (Suc ?n - ?k) ?cs))
        = length (map (\<lambda>i. sub (foldl add z (take (i + ?k) arr)) (foldl add z (take i arr)))
            [0..<Suc ?n - ?k])"
      using l1 l2 by simp
  next
    fix i
    assume "i < length (map2 sub (drop ?k ?cs) (take (Suc ?n - ?k) ?cs))"
    then have i: "i < Suc ?n - ?k" using l1 l2 by simp
    then have a: "drop ?k ?cs ! i = foldl add z (take (i + ?k) arr)"
      using prefix_sums_nth [of "?k + i" arr add z] by (simp add: len add.commute)
    have b: "take (Suc ?n - ?k) ?cs ! i = foldl add z (take i arr)"
      using i prefix_sums_nth [of i arr add z] by simp
    show "map2 sub (drop ?k ?cs) (take (Suc ?n - ?k) ?cs) ! i
        = map (\<lambda>i. sub (foldl add z (take (i + ?k) arr)) (foldl add z (take i arr)))
            [0..<Suc ?n - ?k] ! i"
      using i l1 l2 a b by simp
  qed
  then show ?thesis
    by (simp add: window_sums_def sub)
qed

text \<open>
  On 64-bit integers the prefix sums are the exact ones wrapped around, and so is their
  difference: the exact sum of the window, wrapped around.
\<close>

lemma wrap_add_left:
  "((a + h) mod m - h + b + h) mod m = (a + b + h) mod (m :: int)"
proof -
  have "(a + h) mod m - h + b + h = (a + h) mod m + b" by simp
  then have "((a + h) mod m - h + b + h) mod m = ((a + h) mod m + b) mod m" by simp
  also have "\<dots> = (a + h + b) mod m" by (rule mod_add_left_eq)
  also have "a + h + b = a + b + h" by simp
  finally show ?thesis .
qed

lemma wrap_diff:
  "((a + h) mod m - h - ((b + h) mod m - h) + h) mod m = (a - b + h) mod (m :: int)"
proof -
  have "(a + h) mod m - h - ((b + h) mod m - h) + h = ((a + h) mod m - (b + h) mod m) + h"
    by simp
  then have "((a + h) mod m - h - ((b + h) mod m - h) + h) mod m
      = (((a + h) mod m - (b + h) mod m) + h) mod m"
    by simp
  also have "\<dots> = (((a + h) mod m - (b + h) mod m) mod m + h) mod m"
    by (simp only: mod_add_left_eq)
  also have "((a + h) mod m - (b + h) mod m) mod m = ((a + h) - (b + h)) mod m"
    by (rule mod_diff_eq)
  also have "(((a + h) - (b + h)) mod m + h) mod m = ((a + h) - (b + h) + h) mod m"
    by (rule mod_add_left_eq)
  also have "(a + h) - (b + h) + h = a - b + h" by simp
  finally show ?thesis .
qed

lemma wrap64_add_left: "wrap64 (wrap64 a + b) = wrap64 (a + b)"
  unfolding wrap64_def by (simp only: wrap_add_left)

lemma wrap64_diff: "wrap64 (wrap64 a - wrap64 b) = wrap64 (a - b)"
  unfolding wrap64_def by (simp only: wrap_diff)

lemma wrap64_id: "- (2 ^ 63) \<le> x \<Longrightarrow> x < 2 ^ 63 \<Longrightarrow> wrap64 x = x"
  by (simp add: wrap64_def)

lemma foldl_add64: "foldl add64 (wrap64 a) xs = wrap64 (a + sum_list xs)"
proof (induction xs arbitrary: a)
  case Nil
  show ?case by simp
next
  case (Cons x xs)
  have "add64 (wrap64 a) x = wrap64 (a + x)" by (simp add: add64_def wrap64_add_left)
  with Cons.IH [of "a + x"] show ?case by (simp add: add.assoc)
qed

lemma sum_list_window:
  "sum_list (take (i + w) data) - sum_list (take i data)
     = sum_list (take w (drop i (data :: int list)))"
  by (simp add: take_add)

lemma window_sums_int64:
  assumes "1 \<le> w"
  shows "window_sums add64 sub64 0 arr w
           = Inr (map (\<lambda>i. wrap64 (sum_list (take (nat w) (drop i arr))))
                    [0..<Suc (length arr) - nat w])"
proof -
  have z: "wrap64 0 = 0" by (simp add: wrap64_def)
  have p: "foldl add64 0 xs = wrap64 (sum_list xs)" for xs
    using foldl_add64 [of 0 xs] by (simp add: z)
  have "sub64 (foldl add64 0 (take (i + nat w) arr)) (foldl add64 0 (take i arr))
      = wrap64 (sum_list (take (nat w) (drop i arr)))" for i
    by (simp add: p sub64_def wrap64_diff sum_list_window)
  then show ?thesis by (simp add: window_sums_positive [OF assms])
qed

text \<open>
  The result for a window of at least \<open>1\<close>: on integers, entry \<open>i\<close> is the exact sum of
  the window, wrapped around to 64 bits, converted to a float and divided by the float of
  the window; on floats it is the difference of two running sums, each rounded at every
  addition, divided by the float of the window.
\<close>

lemma moving_average_int64:
  assumes "1 \<le> w" "float_of_int w = Inr fw"
  shows "moving_average (Int64 arr) w
           = Inr (map (\<lambda>i. fdiv (float_of_int64 (wrap64 (sum_list (take (nat w) (drop i arr))))) fw)
                    [0..<Suc (length arr) - nat w])"
  by (simp add: moving_average_def window_sums_int64 [OF assms(1)] assms(2) comp_def)

lemma moving_average_float64:
  assumes "1 \<le> w" "float_of_int w = Inr fw"
  shows "moving_average (Float64 arr) w
           = Inr (map (\<lambda>i. fdiv (fsub (foldl fadd (Finite 0) (take (i + nat w) arr))
                                       (foldl fadd (Finite 0) (take i arr))) fw)
                    [0..<Suc (length arr) - nat w])"
  by (simp add: moving_average_def window_sums_positive [OF assms(1)] assms(2) comp_def)

lemma moving_average_overflow:
  assumes "1 \<le> w" "float_of_int w = Inl e"
  shows "moving_average data w = Inl e"
  by (cases data)
     (simp_all add: moving_average_def window_sums_positive [OF assms(1)] assms(2))

lemma moving_average_length:
  assumes "1 \<le> w" "w < 2 ^ 1024 - 2 ^ 970"
  shows "\<exists>r. moving_average data w = Inr r \<and> length r = Suc (np_len data) - nat w"
proof -
  have "0 \<le> w" using assms(1) by simp
  from float_of_int_finite [OF this assms(2)] obtain fw where fw: "float_of_int w = Inr fw"
    by blast
  show ?thesis
    by (cases data)
       (simp_all add: moving_average_int64 [OF assms(1) fw]
          moving_average_float64 [OF assms(1) fw] np_len_def)
qed

text \<open>
  Where the integers are small, nothing wraps around and the conversions are exact: the
  entry is the mean of the window, rounded once.
\<close>

lemma abs_window_sum:
  "\<bar>sum_list (take w (drop i xs))\<bar> \<le> sum_list (map abs (xs :: int list))"
proof -
  have nn: "0 \<le> sum_list (map abs ys)" for ys :: "int list"
    by (rule sum_list_nonneg) auto
  have "xs = take i xs @ take w (drop i xs) @ drop w (drop i xs)"
    by (simp only: append_take_drop_id)
  then have "sum_list (map abs xs)
      = sum_list (map abs (take i xs)) + sum_list (map abs (take w (drop i xs)))
        + sum_list (map abs (drop w (drop i xs)))"
    by (metis add.assoc map_append sum_list_append)
  with nn [of "take i xs"] nn [of "drop w (drop i xs)"]
  have "sum_list (map abs (take w (drop i xs))) \<le> sum_list (map abs xs)" by linarith
  with sum_list_abs [of "take w (drop i xs)"] show ?thesis by linarith
qed

lemma moving_average_means:
  assumes "1 \<le> w" "w \<le> 2 ^ 53" "sum_list (map abs arr) \<le> 2 ^ 53"
  shows "moving_average (Int64 arr) w
           = Inr (map (\<lambda>i. round64 (window_mean arr (nat w) i)) [0..<Suc (length arr) - nat w])"
proof -
  have "\<bar>w\<bar> \<le> 2 ^ 53" using assms(1,2) by simp
  from float_of_int_exact [OF this] have fw: "float_of_int w = Inr (Finite (of_int w))" .
  have "fdiv (float_of_int64 (wrap64 (sum_list (take (nat w) (drop i arr))))) (Finite (of_int w))
      = round64 (window_mean arr (nat w) i)" for i
  proof -
    let ?s = "sum_list (take (nat w) (drop i arr))"
    have s: "\<bar>?s\<bar> \<le> 2 ^ 53" using abs_window_sum [of "nat w" i arr] assms(3) by linarith
    then have "wrap64 ?s = ?s" by (intro wrap64_id) simp_all
    moreover have "float_of_int64 ?s = Finite (of_int ?s)"
      unfolding float_of_int64_def by (rule round64_of_int [OF s])
    moreover have "(of_int w :: rat) = of_nat (nat w)" using assms(1) by simp
    ultimately show ?thesis
      using assms(1) by (simp add: fdiv_def window_mean_def)
  qed
  then show ?thesis by (simp add: moving_average_int64 [OF assms(1) fw])
qed

text \<open>A window of \<open>0\<close> either raises (the arrays do not broadcast) or gives no entry.\<close>

lemma moving_average_zero_window:
  "moving_average (Int64 [1, 2, 3]) 0 = Inl ValueError" "moving_average (Int64 []) 0 = Inr []"
  by code_simp+

lemma moving_average_example:
  "moving_average (Int64 [1, 2, 3, 4, 5]) 2
     = Inr [Finite (3 / 2), Finite (5 / 2), Finite (7 / 2), Finite (9 / 2)]"
  by code_simp

text \<open>
  On the floats \<open>0.1\<close>, \<open>0.2\<close>, \<open>0.3\<close> with a window of \<open>3\<close> the running sum is
  rounded twice, and the one entry is \<open>0.20000000000000004\<close>.
\<close>

lemma moving_average_float_example:
  "moving_average (Float64 [Finite (3602879701896397 / 36028797018963968),
                            Finite (3602879701896397 / 18014398509481984),
                            Finite (5404319552844595 / 18014398509481984)]) 3
     = Inr [Finite (7205759403792795 / 36028797018963968)]"
  by code_simp

text \<open>
  Claim C7, as stated, for every window size: the result has \<open>len(data) - w + 1\<close> entries,
  each the mean of \<open>w\<close> consecutive elements. For \<open>data = [1]\<close> and \<open>w = 3\<close> both
  slices are empty and the result is the empty array, where the claim gives the length
  \<open>-1\<close>. For \<open>data = [1, 2, 3]\<close> and \<open>w = -1\<close> the result is the one entry
  \<open>(6 - 0) / -1\<close>, where the claim gives the length \<open>5\<close>. For the 64-bit integers
  \<open>[2 ^ 62, 2 ^ 62]\<close> and \<open>w = 2\<close> the running total wraps around to \<open>- 2 ^ 63\<close>, and
  the one entry is \<open>- 2 ^ 62\<close>, where the mean is \<open>2 ^ 62\<close>.
\<close>

theorem moving_average_length_counterexample:
  "moving_average (Int64 [1]) 3 = Inr []
   \<and> int (np_len (Int64 [1])) - 3 + 1 = - 1
   \<and> moving_average (Int64 [1, 2, 3]) (- 1) = Inr [Finite (- 6)]
   \<and> int (np_len (Int64 [1, 2, 3])) - (- 1) + 1 = 5
   \<and> moving_average (Int64 [2 ^ 62, 2 ^ 62]) 2 = Inr [Finite (- (2 ^ 62))]
   \<and> window_mean [2 ^ 62, 2 ^ 62] 2 0 = 2 ^ 62"
  by code_simp

text \<open>
  Claim C7, amended. For every window size \<open>w \<ge> 1\<close> that has a float,
  \<open>moving_average(data, w)\<close> has one entry for every \<open>i\<close> below \<open>len(data) + 1 - w\<close> and
  none when \<open>w > len(data)\<close>, so its length is \<open>len(data) - w + 1\<close> whenever
  \<open>w \<le> len(data) + 1\<close>. On 64-bit integers entry \<open>i\<close> is the sum of the \<open>w\<close> consecutive
  elements from position \<open>i\<close>, wrapped around to 64 bits, converted to a float and divided
  by \<open>float(w)\<close>; it is the mean of these elements, rounded to the nearest float, when
  \<open>w\<close> and the sum of the magnitudes of the elements are at most \<open>2 ^ 53\<close>. On floats
  entry \<open>i\<close> is the difference of the running sums of the first \<open>i + w\<close> and of the first
  \<open>i\<close> elements, each rounded at every addition, divided by \<open>float(w)\<close>. For a window
  from \<open>2 ^ 1024 - 2 ^ 970\<close> on, \<open>float(w)\<close> raises OverflowError.
\<close>

theorem moving_average_windows:
  "(1 \<le> w \<and> float_of_int w = Inr fw \<longrightarrow>
      moving_average (Int64 ints) w
        = Inr (map (\<lambda>i. fdiv (float_of_int64 (wrap64 (sum_list (take (nat w) (drop i ints))))) fw)
                 [0..<Suc (length ints) - nat w])
      \<and> moving_average (Float64 fs) w
        = Inr (map (\<lambda>i. fdiv (fsub (foldl fadd (Finite 0) (take (i + nat w) fs))
                                    (foldl fadd (Finite 0) (take i fs))) fw)
                 [0..<Suc (length fs) - nat w]))
   \<and> (1 \<le> w \<and> w \<le> 2 ^ 53 \<and> sum_list (map abs ints) \<le> 2 ^ 53 \<longrightarrow>
        moving_average (Int64 ints) w
          = Inr (map (\<lambda>i. round64 (window_mean ints (nat w) i)) [0..<Suc (length ints) - nat w]))
   \<and> (1 \<le> w \<and> w \<le> int (np_len data) + 1 \<and> w < 2 ^ 1024 - 2 ^ 970 \<longrightarrow>
        (\<exists>r. moving_average data w = Inr r \<and> int (length r) = int (np_len data) - w + 1))
   \<and> (int (np_len data) < w \<and> w < 2 ^ 1024 - 2 ^ 970 \<longrightarrow> moving_average data w = Inr [])
   \<and> (2 ^ 1024 - 2 ^ 970 \<le> w \<longrightarrow> moving_average data w = Inl OverflowError)"
proof (intro conjI impI)
  assume "1 \<le> w \<and> float_of_int w = Inr fw"
  then show "moving_average (Int64 ints) w
        = Inr (map (\<lambda>i. fdiv (float_of_int64 (wrap64 (sum_list (take (nat w) (drop i ints))))) fw)
                 [0..<Suc (length ints) - nat w])"
    by (intro moving_average_int64) simp_all
next
  assume "1 \<le> w \<and> float_of_int w = Inr fw"
  then show "moving_average (Float64 fs) w
        = Inr (map (\<lambda>i. fdiv (fsub (foldl fadd (Finite 0) (take (i + nat w) fs))
                                    (foldl fadd (Finite 0) (take i fs))) fw)
                 [0..<Suc (length fs) - nat w])"
    by (intro moving_average_float64) simp_all
next
  assume "1 \<le> w \<and> w \<le> 2 ^ 53 \<and> sum_list (map abs ints) \<le> 2 ^ 53"
  then show "moving_average (Int64 ints) w
          = Inr (map (\<lambda>i. round64 (window_mean ints (nat w) i)) [0..<Suc (length ints) - nat w])"
    by (intro moving_average_means) simp_all
next
  assume a: "1 \<le> w \<and> w \<le> int (np_len data) + 1 \<and> w < 2 ^ 1024 - 2 ^ 970"
  then obtain r where "moving_average data w = Inr r" "length r = Suc (np_len data) - nat w"
    using moving_average_length [of w data] by blast
  moreover have "int (Suc (np_len data) - nat w) = int (np_len data) - w + 1"
    using a by linarith
  ultimately show "\<exists>r. moving_average data w = Inr r
      \<and> int (length r) = int (np_len data) - w + 1"
    by simp
next
  assume a: "int (np_len data) < w \<and> w < 2 ^ 1024 - 2 ^ 970"
  then have "1 \<le> w" by linarith
  with a obtain r where "moving_average data w = Inr r" "length r = Suc (np_len data) - nat w"
    using moving_average_length [of w data] by blast
  moreover have "Suc (np_len data) - nat w = 0" using a by linarith
  ultimately show "moving_average data w = Inr []" by simp
next
  assume a: "2 ^ 1024 - 2 ^ 970 \<le> w"
  then have "1 \<le> w" by simp
  from moving_average_overflow [OF this float_of_int_overflow [OF a]]
  show "moving_average data w = Inl OverflowError" .
qed

theorem moving_average_windows_witness:
  "(1::int) \<le> 2 \<and> float_of_int 2 = Inr (Finite 2)
   \<and> moving_average (Int64 [1, 2, 3, 4, 5]) 2
       = Inr [Finite (3 / 2), Finite (5 / 2), Finite (7 / 2), Finite (9 / 2)]
   \<and> moving_average (Float64 [Finite (1 / 2), Finite (1 / 4), Finite (1 / 4)]) 2
       = Inr [Finite (3 / 8), Finite (1 / 4)]
   \<and> (2::int) \<le> 2 ^ 53 \<and> sum_list (map abs [1, 2, 3, 4, 5 :: int]) \<le> 2 ^ 53
   \<and> (2::int) \<le> int (np_len (Int64 [1, 2, 3, 4, 5])) + 1 \<and> (2::int) < 2 ^ 1024 - 2 ^ 970
   \<and> (\<exists>r. moving_average (Int64 [1, 2, 3, 4, 5]) 2 = Inr r
          \<and> int (length r) = int (np_len (Int64 [1, 2, 3, 4, 5])) - 2 + 1)
   \<and> int (np_len (Int64 [1])) < 3 \<and> (3::int) < 2 ^ 1024 - 2 ^ 970
   \<and> moving_average (Int64 [1]) 3 = Inr []
   \<and> (2::int) ^ 1024 - 2 ^ 970 \<le> 2 ^ 1024
   \<and> moving_average (Int64 [1, 2, 3, 4, 5]) (2 ^ 1024) = Inl OverflowError"
proof -
  note A = moving_average_windows [of 2 "Finite 2" "[1, 2, 3, 4, 5]"
      "[Finite (1 / 2), Finite (1 / 4), Finite (1 / 4)]" "Int64 [1, 2, 3, 4, 5]"]
  note B = moving_average_windows [of 3 "Finite 3" "[1]" "[]" "Int64 [1]"]
  note C = moving_average_windows [of "2 ^ 1024" "Finite 2" "[1]" "[]" "Int64 [1, 2, 3, 4, 5]"]
  have 1: "float_of_int 2 = Inr (Finite 2)" using float_of_int_exact [of 2] by simp
  have 2: "map (\<lambda>i. fdiv (float_of_int64 (wrap64 (sum_list (take (nat 2) (drop i [1, 2, 3, 4, 5])))))
                    (Finite 2)) [0..<Suc (length [1, 2, 3, 4, 5 :: int]) - nat 2]
      = [Finite (3 / 2), Finite (5 / 2), Finite (7 / 2), Finite (9 / 2)]"
    by code_simp
  have 3: "map (\<lambda>i. fdiv (fsub (foldl fadd (Finite 0)
                                  (take (i + nat 2) [Finite (1 / 2), Finite (1 / 4), Finite (1 / 4)]))
                               (foldl fadd (Finite 0)
                                  (take i [Finite (1 / 2), Finite (1 / 4), Finite (1 / 4)])))
                    (Finite 2))
             [0..<Suc (length [Finite (1 / 2), Finite (1 / 4), Finite (1 / 4)]) - nat 2]
      = [Finite (3 / 8), Finite (1 / 4)]"
    by code_simp
  have 4: "np_len (Int64 [1, 2, 3, 4, 5]) = 5" "np_len (Int64 [1]) = 1"
    by (simp_all add: np_len_def)
  have c1: "moving_average (Int64 [1, 2, 3, 4, 5]) 2
       = Inr [Finite (3 / 2), Finite (5 / 2), Finite (7 / 2), Finite (9 / 2)]"
    using A 1 unfolding 2 by simp
  have c2: "moving_average (Float64 [Finite (1 / 2), Finite (1 / 4), Finite (1 / 4)]) 2
       = Inr [Finite (3 / 8), Finite (1 / 4)]"
    using A 1 unfolding 3 by simp
  have c3: "\<exists>r. moving_average (Int64 [1, 2, 3, 4, 5]) 2 = Inr r
          \<and> int (length r) = int (np_len (Int64 [1, 2, 3, 4, 5])) - 2 + 1"
    using A by (simp add: 4)
  have c4: "moving_average (Int64 [1]) 3 = Inr []" using B by (simp add: 4)
  have c5: "moving_average (Int64 [1, 2, 3, 4, 5]) (2 ^ 1024) = Inl OverflowError"
    using C by simp
  show ?thesis using 1 c1 c2 c3 c4 c5 by (simp add: 4)
qed

section \<open>Properties of pretty_size\<close>

lemma str_nat_nonempty: "1 \<le> length (str_nat n)"
  by (subst str_nat.simps) simp

text \<open>
  The formatted value of a number that is not negative: the decimal digits of the whole
  part, a point and one digit, the number they denote being the nearest tenth.
\<close>

lemma format_3_1f_nonneg:
  assumes "0 \<le> q"
  shows "\<exists>t. format_3_1f q = str_nat (t div 10) @ ''.'' @ [digit_char (t mod 10)]
             \<and> \<bar>of_nat t / 10 - q\<bar> \<le> 1 / 20"
proof -
  define t where "t = nat (round_half_even (\<bar>q\<bar> * 10))"
  have f: "format_1f q = str_nat (t div 10) @ ''.'' @ [digit_char (t mod 10)]"
    using assms by (simp add: format_1f_def t_def Let_def)
  have "3 \<le> length (format_1f q)"
    unfolding f using str_nat_nonempty [of "t div 10"] by simp
  then have g: "format_3_1f q = str_nat (t div 10) @ ''.'' @ [digit_char (t mod 10)]"
    by (simp add: format_3_1f_def f)
  have "0 \<le> round_half_even (q * 10)"
    using assms by (intro round_half_even_nonneg) simp
  then have "(of_nat t :: rat) = of_int (round_half_even (q * 10))"
    using assms by (simp add: t_def)
  then have "\<bar>of_nat t - q * 10\<bar> \<le> 1 / 2"
    using round_half_even_near [of "q * 10"] by simp
  then have "\<bar>of_nat t / 10 - q\<bar> \<le> 1 / 20"
    by (simp add: abs_le_iff field_simps)
  with g show ?thesis by blast
qed

text \<open>
  An integer below \<open>2 ^ 53\<close> and its quotients by powers of \<open>1024\<close> are floats: the
  conversion and the divisions of the loop are exact on them.
\<close>

lemma py_lt_1024:
  "py_lt (PyLong b) (PyFloat (Finite 1024)) = (b < 1024)"
  "py_lt (PyFloat (Finite q)) (PyFloat (Finite 1024)) = (q < 1024)"
  by (simp_all add: py_lt_def exact_def)

lemma round64_div_1024:
  assumes "0 \<le> b" "b < 2 ^ 53" "j \<le> 100"
  shows "round64 (of_int b / 1024 ^ j) = Finite (of_int b / 1024 ^ j)"
proof -
  have "(1024 :: rat) ^ j = 2 ^ (10 * j)" by (simp add: power_mult)
  moreover have "pow2 (- int (10 * j)) = 1 / 2 ^ (10 * j)"
    by (cases "j = 0") (simp_all add: pow2_def)
  ultimately have e: "(of_int b :: rat) / 1024 ^ j = of_int b * pow2 (- int (10 * j))"
    by simp
  have b: "\<bar>b\<bar> < 2 ^ 53" using assms by simp
  then have "(of_int \<bar>b\<bar> :: rat) < of_int (2 ^ 53)" by (simp only: of_int_less_iff)
  then have "of_int \<bar>b\<bar> < pow2 53" by (simp only: pow2_53)
  moreover have "pow2 (- int (10 * j)) \<le> pow2 0" by (intro pow2_mono) simp
  then have "of_int \<bar>b\<bar> * pow2 (- int (10 * j)) \<le> of_int \<bar>b\<bar> * pow2 0"
    by (intro mult_left_mono) simp_all
  moreover have "pow2 53 < pow2 1024" by (intro pow2_less) simp
  ultimately have "of_int \<bar>b\<bar> * pow2 (- int (10 * j)) < pow2 1024" by (simp add: pow2_def [of 0])
  from round64_dyadic [OF b _ this] assms(3)
  have "round64 (of_int b * pow2 (- int (10 * j))) = Finite (of_int b * pow2 (- int (10 * j)))"
    by simp
  then show ?thesis by (simp only: e)
qed

lemma truediv_1024:
  assumes "0 \<le> b" "b < 2 ^ 53"
  shows "py_truediv (PyLong b) (PyFloat (Finite 1024)) = Inr (PyFloat (Finite (of_int b / 1024 ^ 1)))"
    and "j \<le> 99 \<Longrightarrow> py_truediv (PyFloat (Finite (of_int b / 1024 ^ j))) (PyFloat (Finite 1024))
           = Inr (PyFloat (Finite (of_int b / 1024 ^ Suc j)))"
proof -
  have "\<bar>b\<bar> \<le> 2 ^ 53" using assms by simp
  then have c: "float_of_int b = Inr (Finite (of_int b))" by (rule float_of_int_exact)
  have "fdiv (Finite (of_int b)) (Finite 1024) = round64 (of_int b / 1024 ^ 1)"
    by (simp add: fdiv_def)
  also have "\<dots> = Finite (of_int b / 1024 ^ 1)" by (rule round64_div_1024 [OF assms]) simp
  finally have "fdiv (Finite (of_int b)) (Finite 1024) = Finite (of_int b / 1024 ^ 1)" .
  then show "py_truediv (PyLong b) (PyFloat (Finite 1024))
      = Inr (PyFloat (Finite (of_int b / 1024 ^ 1)))"
    by (simp add: py_truediv_def float_op_def to_float_def c float_truediv_def)
  assume j: "j \<le> 99"
  have "fdiv (Finite (of_int b / 1024 ^ j)) (Finite 1024) = round64 (of_int b / 1024 ^ j / 1024)"
    by (simp add: fdiv_def)
  also have "of_int b / 1024 ^ j / 1024 = (of_int b :: rat) / 1024 ^ Suc j" by simp
  also have "round64 (of_int b / 1024 ^ Suc j) = Finite (of_int b / 1024 ^ Suc j)"
    by (rule round64_div_1024 [OF assms]) (use j in simp)
  finally have "fdiv (Finite (of_int b / 1024 ^ j)) (Finite 1024)
      = Finite (of_int b / 1024 ^ Suc j)" .
  then show "py_truediv (PyFloat (Finite (of_int b / 1024 ^ j))) (PyFloat (Finite 1024))
      = Inr (PyFloat (Finite (of_int b / 1024 ^ Suc j)))"
    by (simp only: py_truediv_def float_op_def to_float_def float_truediv_def) simp
qed

lemma py_format_3_1f_exact:
  "0 \<le> b \<Longrightarrow> b < 2 ^ 53 \<Longrightarrow> py_format_3_1f (PyLong b) = Inr (format_3_1f (of_int b))"
  "py_format_3_1f (PyFloat (Finite q)) = Inr (format_3_1f q)"
  by (simp_all add: py_format_3_1f_def to_float_def float_of_int_exact format_float_3_1f_def)

lemma quotient_less_1024:
  "((of_int b :: rat) / 1024 ^ j < 1024) = (b < 1024 ^ Suc j)"
proof -
  have "((of_int b :: rat) / 1024 ^ j < 1024) = ((of_int b :: rat) < of_int (1024 ^ Suc j))"
    by (simp add: pos_divide_less_eq)
  then show ?thesis by (simp only: of_int_less_iff)
qed

text \<open>
  The unit is found by dividing by \<open>1024\<close> until the quotient is below \<open>1024\<close>: the loop
  on the float \<open>b / 1024 ^ j\<close>, by induction on the number \<open>k\<close> of divisions to come.
\<close>

lemma pretty_size_loop_unit:
  assumes "0 \<le> b" "b < 2 ^ 53"
  shows "k < length units \<Longrightarrow> j + k \<le> 99 \<Longrightarrow> 1024 ^ (j + k) \<le> b \<Longrightarrow> b < 1024 ^ Suc (j + k) \<Longrightarrow>
         pretty_size_loop (PyFloat (Finite (of_int b / 1024 ^ j))) units
           = Inr (Some (format_3_1f (of_int b / 1024 ^ (j + k)) @ '' '' @ units ! k))"
proof (induction k arbitrary: j units)
  case 0
  then obtain u us where u: "units = u # us" by (cases units) simp_all
  from 0 show ?case
    by (simp add: u py_lt_1024 quotient_less_1024 py_format_3_1f_exact del: power_Suc)
next
  case (Suc k)
  then obtain u us where u: "units = u # us" by (cases units) simp_all
  have "(1024 :: int) ^ Suc j \<le> 1024 ^ (j + Suc k)"
    by (intro power_increasing) simp_all
  with Suc.prems(3) have "\<not> b < 1024 ^ Suc j" by linarith
  then have a: "\<not> py_lt (PyFloat (Finite (of_int b / 1024 ^ j))) (PyFloat (Finite 1024))"
    by (simp add: py_lt_1024 quotient_less_1024 del: power_Suc)
  have d: "py_truediv (PyFloat (Finite (of_int b / 1024 ^ j))) (PyFloat (Finite 1024))
      = Inr (PyFloat (Finite (of_int b / 1024 ^ Suc j)))"
    by (rule truediv_1024(2) [OF assms]) (use Suc.prems(2) in simp)
  have "pretty_size_loop (PyFloat (Finite (of_int b / 1024 ^ Suc j))) us
      = Inr (Some (format_3_1f (of_int b / 1024 ^ (Suc j + k)) @ '' '' @ us ! k))"
    using Suc.prems by (intro Suc.IH) (simp_all add: u)
  then show ?case
    using a by (simp add: u d del: power_Suc)
qed

lemma pretty_size_unit:
  assumes "0 \<le> b" "k < 5" "k = 0 \<or> 1024 ^ k \<le> b" "b < 1024 ^ Suc k"
  shows "pretty_size b
           = Inr (Some (format_3_1f (of_int b / 1024 ^ k) @ '' ''
                        @ [''bytes'', ''KB'', ''MB'', ''GB'', ''TB''] ! k))"
proof (cases k)
  case 0
  then have "b < 1024" using assms(4) by simp
  then show ?thesis
    using assms(1) 0 by (simp add: pretty_size_def py_lt_1024 py_format_3_1f_exact)
next
  case (Suc k')
  have "(1024 :: int) ^ Suc k \<le> 1024 ^ 5"
    using assms(2) by (intro power_increasing) simp_all
  then have b: "b < 2 ^ 53" using assms(4) by simp
  have "(1024 :: int) ^ 1 \<le> 1024 ^ k" using Suc by (intro power_increasing) simp_all
  then have ge: "\<not> b < 1024" using assms(3) Suc by (simp del: power_Suc)
  have d: "py_truediv (PyLong b) (PyFloat (Finite 1024)) = Inr (PyFloat (Finite (of_int b / 1024 ^ 1)))"
    by (rule truediv_1024(1) [OF assms(1) b])
  have l: "pretty_size_loop (PyFloat (Finite (of_int b / 1024 ^ 1))) [''KB'', ''MB'', ''GB'', ''TB'']
      = Inr (Some (format_3_1f (of_int b / 1024 ^ (1 + k')) @ '' ''
                   @ [''KB'', ''MB'', ''GB'', ''TB''] ! k'))"
    using assms Suc by (intro pretty_size_loop_unit [OF assms(1) b]) simp_all
  have "pretty_size b
      = pretty_size_loop (PyFloat (Finite (of_int b / 1024 ^ 1))) [''KB'', ''MB'', ''GB'', ''TB'']"
    unfolding pretty_size_def
    by (subst pretty_size_loop.simps(2)) (simp only: py_lt_1024(1) ge if_False d sum.case)
  with l show ?thesis by (simp only: Suc plus_1_eq_Suc nth_Cons_Suc)
qed

text \<open>
  From \<open>1024 ^ 5\<close> on no unit is left. The conversion rounds the count, and the divisions
  round: a float that has reached a power of two stays at or above it, so the five
  comparisons with \<open>1024.0\<close> all fail.
\<close>

lemma pretty_size_loop_large:
  assumes "pow2 (10 * int (length units)) \<le> r" "r \<le> pow2 1024 - pow2 971"
  shows "pretty_size_loop (PyFloat (Finite r)) units = Inr None"
  using assms
proof (induction units arbitrary: r)
  case Nil
  show ?case by simp
next
  case (Cons u units)
  have k: "(1024 :: rat) = pow2 10" by (simp add: pow2_def)
  have "pow2 10 \<le> pow2 (10 * int (length (u # units)))" by (intro pow2_mono) simp
  with Cons.prems(1) have ge: "1024 \<le> r" by (simp only: k)
  have "pow2 (10 * int (length (u # units))) = pow2 (10 * int (length units)) * pow2 10"
    by (simp add: algebra_simps flip: pow2_add)
  with Cons.prems(1) have lo: "pow2 (10 * int (length units)) \<le> r / 1024"
    by (simp add: k pos_le_divide_eq)
  then have pos: "0 < r / 1024" using pow2_pos [of "10 * int (length units)"] by linarith
  have "r / 1024 \<le> r" using ge by simp
  moreover have "pow2 971 = 2 * pow2 970" by (rule pow2_1024(2))
  ultimately have "r / 1024 < pow2 1024 - pow2 970"
    using Cons.prems(2) pow2_pos [of 970] by linarith
  from round_pos_finite [OF pos this] obtain r' where
    r': "round_pos (r / 1024) = Finite r'" "r' \<le> pow2 1024 - pow2 971"
    by blast
  from round_pos_lower [OF lo] r'(1) have "pow2 (10 * int (length units)) \<le> r'" by simp
  from Cons.IH [OF this r'(2)] have "pretty_size_loop (PyFloat (Finite r')) units = Inr None" .
  moreover have "py_truediv (PyFloat (Finite r)) (PyFloat (Finite 1024)) = Inr (PyFloat (Finite r'))"
    using pos r'(1)
    by (simp add: py_truediv_def float_op_def to_float_def float_truediv_def fdiv_def round64_def)
  ultimately show ?case using ge by (simp add: py_lt_1024)
qed

lemma pretty_size_none:
  assumes "1024 ^ 5 \<le> b" "b < 2 ^ 1024 - 2 ^ 970"
  shows "pretty_size b = Inr None"
proof -
  have b0: "0 \<le> b" using assms(1) by simp
  from float_of_int_finite [OF b0 assms(2)] obtain r where
    r: "float_of_int b = Inr (Finite r)" "r \<le> pow2 1024 - pow2 971"
    by blast
  have "(of_int (1024 ^ 5) :: rat) \<le> of_int b" using assms(1) by (simp only: of_int_le_iff)
  moreover have "(of_int (1024 ^ 5) :: rat) = pow2 50" by (simp add: pow2_def)
  ultimately have "pow2 50 \<le> of_int b" by simp
  from float_of_int_lower [OF this _ r(1)] have lo: "pow2 50 \<le> r" by simp
  have k: "(1024 :: rat) = pow2 10" by (simp add: pow2_def)
  have "pow2 50 = pow2 40 * pow2 10" by (simp flip: pow2_add)
  with lo have lo': "pow2 40 \<le> r / 1024" by (simp add: k pos_le_divide_eq)
  then have pos: "0 < r / 1024" using pow2_pos [of 40] by linarith
  have "0 \<le> r" using lo pow2_pos [of 50] by linarith
  then have "r / 1024 \<le> r" by simp
  moreover have "pow2 971 = 2 * pow2 970" by (rule pow2_1024(2))
  ultimately have "r / 1024 < pow2 1024 - pow2 970"
    using r(2) pow2_pos [of 970] by linarith
  from round_pos_finite [OF pos this] obtain r' where
    r': "round_pos (r / 1024) = Finite r'" "r' \<le> pow2 1024 - pow2 971"
    by blast
  from round_pos_lower [OF lo'] r'(1) have "pow2 40 \<le> r'" by simp
  then have "pow2 (10 * int (length [''KB'', ''MB'', ''GB'', ''TB''])) \<le> r'" by simp
  from pretty_size_loop_large [OF this r'(2)]
  have "pretty_size_loop (PyFloat (Finite r')) [''KB'', ''MB'', ''GB'', ''TB''] = Inr None" .
  moreover have "py_truediv (PyLong b) (PyFloat (Finite 1024)) = Inr (PyFloat (Finite r'))"
    using pos r'(1) r(1)
    by (simp add: py_truediv_def float_op_def to_float_def float_truediv_def fdiv_def round64_def)
  moreover have "\<not> b < 1024" using assms(1) by simp
  ultimately show ?thesis by (simp add: pretty_size_def py_lt_1024)
qed

text \<open>
  An integer that rounds to \<open>2 ^ 1024\<close> has no float: the first division raises.
\<close>

lemma pretty_size_overflow:
  assumes "2 ^ 1024 - 2 ^ 970 \<le> b"
  shows "pretty_size b = Inl OverflowError"
proof -
  have "\<not> b < 1024" using assms by simp
  moreover have "py_truediv (PyLong b) (PyFloat (Finite 1024)) = Inl OverflowError"
    using float_of_int_overflow [OF assms]
    by (simp add: py_truediv_def float_op_def to_float_def)
  ultimately show ?thesis by (simp add: pretty_size_def py_lt_1024)
qed

lemma pretty_size_value:
  assumes "pretty_size b = Inr (Some (format_3_1f (of_int b / 1024 ^ k) @ '' '' @ u))" and "0 \<le> b"
  shows "\<exists>t. pretty_size b
               = Inr (Some (str_nat (t div 10) @ ''.'' @ [digit_char (t mod 10)] @ '' '' @ u))
             \<and> \<bar>of_nat t / 10 - of_int b / 1024 ^ k\<bar> \<le> (1 / 20 :: rat)"
proof -
  have "0 \<le> (of_int b :: rat) / 1024 ^ k" using assms(2) by simp
  from format_3_1f_nonneg [OF this] obtain t where
    t: "format_3_1f (of_int b / 1024 ^ k) = str_nat (t div 10) @ ''.'' @ [digit_char (t mod 10)]"
      "\<bar>of_nat t / 10 - of_int b / 1024 ^ k\<bar> \<le> (1 / 20 :: rat)"
    by blast
  have "pretty_size b
      = Inr (Some (str_nat (t div 10) @ ''.'' @ [digit_char (t mod 10)] @ '' '' @ u))"
    unfolding assms(1) t(1) by simp
  with t(2) show ?thesis by blast
qed

text \<open>The examples of the specification, and two ties that go to the even digit.\<close>

lemma pretty_size_examples:
  "pretty_size 500 = Inr (Some ''500.0 bytes'')"
  "pretty_size 2048 = Inr (Some ''2.0 KB'')"
  "pretty_size (1024 * 1024 * 3) = Inr (Some ''3.0 MB'')"
  "pretty_size 1280 = Inr (Some ''1.2 KB'')"
  "pretty_size 1792 = Inr (Some ''1.8 KB'')"
  "pretty_size (1024 ^ 5 - 1) = Inr (Some ''1024.0 TB'')"
  "pretty_size (1024 ^ 5) = Inr None"
  by code_simp+

text \<open>
  Claim C10, as stated: for every \<open>b\<close> at or above \<open>1024 ^ 5\<close> the result is \<open>None\<close>.
  The count \<open>2 ^ 1024\<close> is at or above \<open>1024 ^ 5\<close> and has no float: the first division
  \<open>num /= 1024.0\<close> raises OverflowError, and nothing is returned.
\<close>

theorem pretty_size_overflow_counterexample:
  "(1024 :: int) ^ 5 \<le> 2 ^ 1024 \<and> pretty_size (2 ^ 1024) = Inl OverflowError"
  using pretty_size_overflow [of "2 ^ 1024"] by simp

text \<open>
  Claim C10, amended: for every byte count \<open>b\<close> that is not negative and is below
  \<open>1024 ^ 5\<close>, \<open>pretty_size(b)\<close> is a string made of a value with one decimal place, a
  blank and a unit; the unit is the \<open>k\<close>-th of bytes, KB, MB, GB, TB, where \<open>k\<close> is the
  number of divisions by \<open>1024\<close> that bring \<open>b\<close> below \<open>1024\<close>, and the value is
  \<open>b / 1024 ^ k\<close> rounded to the nearest tenth. For every \<open>b\<close> from \<open>1024 ^ 5\<close> up to,
  but not including, \<open>2 ^ 1024 - 2 ^ 970\<close> the result is \<open>None\<close>. For every \<open>b\<close> from
  \<open>2 ^ 1024 - 2 ^ 970\<close> on, \<open>pretty_size(b)\<close> raises OverflowError.
\<close>

theorem pretty_size_ranges:
  "(0 \<le> b \<and> b < 1024 ^ 5 \<longrightarrow>
      (\<exists>k<5. \<exists>t. pretty_size b
                    = Inr (Some (str_nat (t div 10) @ ''.'' @ [digit_char (t mod 10)] @ '' ''
                                 @ [''bytes'', ''KB'', ''MB'', ''GB'', ''TB''] ! k))
                \<and> \<bar>of_nat t / 10 - of_int b / 1024 ^ k\<bar> \<le> (1 / 20 :: rat)
                \<and> (k = 0 \<or> 1024 ^ k \<le> b) \<and> b < 1024 ^ Suc k))
   \<and> (1024 ^ 5 \<le> b \<and> b < 2 ^ 1024 - 2 ^ 970 \<longrightarrow> pretty_size b = Inr None)
   \<and> (2 ^ 1024 - 2 ^ 970 \<le> b \<longrightarrow> pretty_size b = Inl OverflowError)"
proof (intro conjI impI)
  assume "2 ^ 1024 - 2 ^ 970 \<le> b"
  then show "pretty_size b = Inl OverflowError" by (rule pretty_size_overflow)
next
  assume "1024 ^ 5 \<le> b \<and> b < 2 ^ 1024 - 2 ^ 970"
  then show "pretty_size b = Inr None" by (intro pretty_size_none) simp_all
next
  assume b: "0 \<le> b \<and> b < 1024 ^ 5"
  let ?units = "[''bytes'', ''KB'', ''MB'', ''GB'', ''TB'']"
  let ?goal = "\<lambda>k. \<exists>t. pretty_size b
                    = Inr (Some (str_nat (t div 10) @ ''.'' @ [digit_char (t mod 10)] @ '' ''
                                 @ ?units ! k))
                \<and> \<bar>of_nat t / 10 - of_int b / 1024 ^ k\<bar> \<le> (1 / 20 :: rat)
                \<and> (k = 0 \<or> 1024 ^ k \<le> b) \<and> b < 1024 ^ Suc k"
  have b0: "0 \<le> b" using b by simp
  have step: "?goal k" if "k < 5" "k = 0 \<or> 1024 ^ k \<le> b" "b < 1024 ^ Suc k" for k
  proof -
    from pretty_size_value [OF pretty_size_unit [OF b0 that] b0] that(2,3)
    show ?thesis by blast
  qed
  consider "b < 1024 ^ Suc 0" | "1024 ^ 1 \<le> b" "b < 1024 ^ Suc 1"
    | "1024 ^ 2 \<le> b" "b < 1024 ^ Suc 2"
    | "1024 ^ 3 \<le> b" "b < 1024 ^ Suc 3" | "1024 ^ 4 \<le> b" "b < 1024 ^ Suc 4"
    using b by (simp del: power_Suc add: eval_nat_numeral) linarith
  then show "\<exists>k<5. ?goal k"
  proof cases
    case 1
    then have "?goal 0" by (intro step) simp_all
    then show ?thesis by (intro exI [of _ 0]) simp
  next
    case 2
    then have "?goal 1" by (intro step) simp_all
    then show ?thesis by (intro exI [of _ 1]) simp
  next
    case 3
    then have "?goal 2" by (intro step) simp_all
    then show ?thesis by (intro exI [of _ 2]) simp
  next
    case 4
    then have "?goal 3" by (intro step) simp_all
    then show ?thesis by (intro exI [of _ 3]) simp
  next
    case 5
    then have "?goal 4" by (intro step) simp_all
    then show ?thesis by (intro exI [of _ 4]) simp
  qed
qed

theorem pretty_size_ranges_witness:
  "(0::int) \<le> 2048 \<and> (2048::int) < 1024 ^ 5
   \<and> (\<exists>k<5. \<exists>t. pretty_size 2048
                    = Inr (Some (str_nat (t div 10) @ ''.'' @ [digit_char (t mod 10)] @ '' ''
                                 @ [''bytes'', ''KB'', ''MB'', ''GB'', ''TB''] ! k))
                \<and> \<bar>of_nat t / 10 - of_int 2048 / 1024 ^ k\<bar> \<le> (1 / 20 :: rat)
                \<and> (k = 0 \<or> 1024 ^ k \<le> (2048::int)) \<and> (2048::int) < 1024 ^ Suc k)
   \<and> (1024::int) ^ 5 \<le> 1024 ^ 5 \<and> (1024::int) ^ 5 < 2 ^ 1024 - 2 ^ 970
   \<and> pretty_size (1024 ^ 5) = Inr None
   \<and> (2::int) ^ 1024 - 2 ^ 970 \<le> 2 ^ 1024 - 2 ^ 970
   \<and> pretty_size (2 ^ 1024 - 2 ^ 970) = Inl OverflowError"
  using pretty_size_ranges [of 2048] pretty_size_ranges [of "1024 ^ 5"]
    pretty_size_ranges [of "2 ^ 1024 - 2 ^ 970"]
  by simp

section \<open>Properties of Trainer.epochs\<close>

lemma epochs_pull_simps:
  "epochs_pull cur e t =
     (if e \<noteq> 0 \<and> cur < e then (Yield cur, EpochsSuspended (cur + 1) e, t)
      else (StopIteration, EpochsFinished, t))"
  by (simp add: epochs_pull_def counter_next_def counter_continues_def counter_def)

lemma epochs_take_resume:
  assumes "cur < e" and "e \<noteq> 0"
  shows "epochs_take (Suc n) (EpochsSuspended cur e) t
           = (case epochs_take n (EpochsSuspended (cur + 1) e) (t\<lparr>num_epochs := num_epochs t + 1\<rparr>) of
                (Inl x, r) \<Rightarrow> (Inl x, r)
              | (Inr xs, r) \<Rightarrow> (Inr (cur # xs), r))"
  using assms by (simp add: epochs_pull_simps split: prod.splits sum.splits)

lemma epochs_take_start:
  assumes "num_epochs t < num_epochs t + num" and "num_epochs t + num \<noteq> 0"
  shows "epochs_take (Suc n) (epochs (Some num)) t
           = (case epochs_take n (EpochsSuspended (num_epochs t + 1) (num_epochs t + num)) t of
                (Inl x, r) \<Rightarrow> (Inl x, r)
              | (Inr xs, r) \<Rightarrow> (Inr (num_epochs t # xs), r))"
  using assms by (simp add: epochs_def epochs_pull_simps split: prod.splits sum.splits)

text \<open>
  A suspended generator that still has \<open>n\<close> indices below its bound: resuming it \<open>n + 1\<close>
  times yields them and leaves the epoch counter advanced by \<open>n + 1\<close>.
\<close>

lemma epochs_take_suspended:
  assumes "0 < e" and "cur \<le> e"
  shows "epochs_take (Suc (nat (e - cur))) (EpochsSuspended cur e) t
           = (Inr [cur..e - 1], EpochsFinished, t\<lparr>num_epochs := num_epochs t + (e - cur) + 1\<rparr>)"
  using assms(2)
proof (induction "nat (e - cur)" arbitrary: cur t)
  case 0
  then have "cur = e" by simp
  then show ?case by (simp add: epochs_pull_simps)
next
  case (Suc k)
  then have lt: "cur < e" and k: "k = nat (e - (cur + 1))" and le: "cur + 1 \<le> e" by linarith+
  have ne: "e \<noteq> 0" using assms(1) by simp
  have n: "nat (e - cur) = Suc (nat (e - (cur + 1)))" using lt by linarith
  have u: "[cur..e - 1] = cur # [cur + 1..e - 1]" using lt by (simp add: upto_rec1)
  note ih = Suc.hyps(1) [OF k le, of "t\<lparr>num_epochs := num_epochs t + 1\<rparr>"]
  show ?case
    unfolding n u epochs_take_resume [OF lt ne] ih by (simp add: algebra_simps)
qed

text \<open>
  The bounded part of claim C3: on a trainer whose epoch counter is not negative,
  \<open>epochs(num)\<close> with \<open>num \<ge> 0\<close> yields exactly the \<open>num\<close> indices from the current
  counter on, and the counter has advanced by \<open>num\<close> when the generator is exhausted.
\<close>

lemma epochs_take_bounded:
  assumes "0 \<le> num_epochs t" and "0 \<le> num"
  shows "epochs_take (Suc (nat num)) (epochs (Some num)) t
           = (Inr [num_epochs t..num_epochs t + num - 1], EpochsFinished,
              t\<lparr>num_epochs := num_epochs t + num\<rparr>)"
proof (cases "num = 0")
  case True
  then show ?thesis by (simp add: epochs_def epochs_pull_simps)
next
  case False
  let ?s = "num_epochs t"
  have pos: "0 < ?s + num" and lt: "?s < ?s + num" using assms False by linarith+
  have ne: "?s + num \<noteq> 0" using pos by simp
  have n: "nat num = Suc (nat (?s + num - (?s + 1)))" using assms False by linarith
  have u: "[?s..?s + num - 1] = ?s # [?s + 1..?s + num - 1]" using lt by (simp add: upto_rec1)
  have le: "?s + 1 \<le> ?s + num" using lt by simp
  show ?thesis
    unfolding n u epochs_take_start [OF lt ne] epochs_take_suspended [OF pos le, of t]
    by (simp add: algebra_simps)
qed

lemma epochs_example:
  "epochs_take 4 (epochs (Some 3)) (Trainer_init False False False False False)
     = (Inr [0, 1, 2], EpochsFinished,
        (Trainer_init False False False False False)\<lparr>num_epochs := 3\<rparr>)"
  using epochs_take_bounded [of "Trainer_init False False False False False" 3]
  by (simp add: Trainer_init_def upto_rec1 [of 0] upto_rec1 [of 1] upto_rec1 [of 2])

text \<open>
  Claim C3 says that the sequence is infinite when \<open>num\<close> is absent. In the code the
  default \<open>num=None\<close> reaches the addition \<open>self.num_epochs + num\<close>: the first \<open>next\<close>
  raises TypeError, nothing is yielded, the generator is finished and the trainer is
  unchanged.
\<close>

theorem epochs_absent_num_raises:
  "epochs_next (epochs None) t = (Raise TypeError, EpochsFinished, t)
   \<and> epochs_take (Suc n) (epochs None) t = (Inl TypeError, EpochsFinished, t)"
  by (simp add: epochs_def)

section \<open>Properties of the run loop\<close>




















































text \<open>
  A run that nothing disturbs. When the external components neither raise nor ask for a
  stop, every piece of the loop returns normally, and what it adds to the counters adds
  up: one step and the length of the batch for each batch, one epoch for each epoch.
\<close>

lemma completesI:
  "(\<And>t. \<not> stop' t \<Longrightarrow> \<exists>a t'. m t = (Inr a, t') \<and> P a \<and> adds i j k t t' \<and> \<not> stop' t')
   \<Longrightarrow> completes P m i j k"
  by (simp add: completes_def)

lemma completesE:
  assumes "completes P m i j k" and "\<not> stop' t"
  obtains a t' where "m t = (Inr a, t')" and "P a" and "adds i j k t t'" and "\<not> stop' t'"
  using assms unfolding completes_def by blast


lemma adds_trans: "adds i j k t t' \<Longrightarrow> adds i' j' k' t' t'' \<Longrightarrow> adds (i + i') (j + j') (k + k') t t''"
  by (simp add: adds_def)

lemma completes_weaken: "completes P m i j k \<Longrightarrow> (\<And>a. P a \<Longrightarrow> Q a) \<Longrightarrow> completes Q m i j k"
  unfolding completes_def by blast









lemma completes_try_finally:
  assumes "completes P m i j k" and "completes (\<lambda>_. True) c 0 0 0"
  shows "completes P (try_finally m c) i j k"
proof (rule completesI)
  fix t :: Trainer
  assume "\<not> stop' t"
  with assms(1) obtain a t' where m: "m t = (Inr a, t')" "P a" "adds i j k t t'" "\<not> stop' t'"
    by (rule completesE)
  from assms(2) m(4) obtain u t'' where
    c: "c t' = (Inr u, t'')" "adds 0 0 0 t' t''" "\<not> stop' t''"
    by (rule completesE)
  show "\<exists>b t''. try_finally m c t = (Inr b, t'') \<and> P b \<and> adds i j k t t'' \<and> \<not> stop' t''"
    using m c adds_trans [OF m(3) c(2)] by (simp add: try_finally_def)
qed
















lemma run_example:
  "run quiet (\<lambda>t. [2, 2]) (Some 2) (Trainer_init True False False False False)
     = (Inr (), (Trainer_init True False False False False)
                  \<lparr>num_steps := 4, num_samples := 8, num_epochs := 2\<rparr>)"
  "run quiet (\<lambda>t. [2, 2]) (Some 2) (Trainer_init False False False False False)
     = (Inr (), (Trainer_init False False False False False)
                  \<lparr>num_steps := 4, num_samples := 8, num_epochs := 2\<rparr>)"
  "run quiet (\<lambda>t. [2, 2]) None (Trainer_init True False False False False)
     = (Inl TypeError, Trainer_init True False False False False)"
  by code_simp+




section \<open>Properties of Trainer.__setattr__\<close>

text \<open>
  The guard on \<open>batch_size\<close>: with a truthy loader bound, assigning \<open>batch_size\<close> raises
  ValueError, provided the attribute is already set and is not the string
  \<open>'batch_size'\<close> (the guard compares it with the attribute's name, not with the new
  value).
\<close>

lemma setattr_batch_size_guard:
  assumes "attr_truthy self ''loader''" and "hasattr self ''batch_size''"
    and "getattr self ''batch_size'' \<noteq> Some (PyStr ''batch_size'')"
  shows "Trainer_setattr self ''batch_size'' v = Inl ValueError"
  using assms by (simp add: Trainer_setattr_def rebind_scheduler_def copy_from_loader_def)

lemma setattr_batch_size_example:
  "Trainer_setattr Trainer_with_loader ''batch_size'' (PyInt 64) = Inl ValueError"
  by (simp add: Trainer_setattr_def rebind_scheduler_def copy_from_loader_def
      Trainer_with_loader_def hasattr_def getattr_def attr_truthy_def)

text \<open>
  Claim C1 says that assigning \<open>dataset\<close> on a trainer with a loader bound fails like
  assigning \<open>batch_size\<close> and leaves the attribute unchanged. The test for \<open>dataset\<close>
  stands inside the branch for \<open>key == 'batch_size'\<close>, where \<open>key == 'dataset'\<close> is
  never true: on every trainer the assignment goes through, and on the trainer with a
  loader bound the dataset is replaced while the loader keeps the old one.
\<close>

theorem setattr_dataset_not_guarded:
  "Trainer_setattr self ''dataset'' v = Inr (self(''dataset'' \<mapsto> v))
   \<and> attr_truthy Trainer_with_loader ''loader''
   \<and> attr_truthy Trainer_with_loader ''dataset''
   \<and> Trainer_setattr Trainer_with_loader ''dataset'' (PyObj True [(''name'', PyStr ''other'')])
       = Inr (Trainer_with_loader(''dataset'' \<mapsto> PyObj True [(''name'', PyStr ''other'')]))"
proof -
  have "Trainer_setattr self ''dataset'' v = Inr (self(''dataset'' \<mapsto> v))" for self v
    by (simp add: Trainer_setattr_def rebind_scheduler_def copy_from_loader_def object_setattr_def)
  moreover have "attr_truthy Trainer_with_loader ''loader''"
    "attr_truthy Trainer_with_loader ''dataset''"
    by (simp_all add: Trainer_with_loader_def attr_truthy_def getattr_def)
  ultimately show ?thesis by simp
qed

section \<open>Properties of the run loop with a Checkpoint callback\<close>

text \<open>
  The run loop with a Checkpoint callback of frequency \<open>2\<close> as its pipeline: four epochs
  of two batches write a checkpoint at the end of the epochs 0 and 2. The epoch counter
  is advanced when the generator is resumed, after the epoch-end event.
\<close>

lemma leaves_counters_checkpointing: "leaves_counters (checkpointing cb)"
  unfolding leaves_counters_def
proof (intro allI)
  fix s t
  show "same_counters t (snd (checkpointing cb s t))"
  proof (cases s)
    case (Notify ev)
    then show ?thesis
      by (cases ev)
         (auto simp: checkpointing_def Checkpoint_notify_def Callback_hook_def on_epoch_end_def
            py_mod_def checkpoint_def Let_def same_counters_def)
  qed (simp_all add: checkpointing_def same_counters_def)
qed

lemma run_checkpointing_example:
  "run (checkpointing \<lparr>freq = 2\<rparr>) (\<lambda>t. [2, 2]) (Some 4) (Trainer_init True False False False False)
     = (Inr (), (Trainer_init True False False False False)
                  \<lparr>num_steps := 8, num_samples := 16, num_epochs := 4,
                   saved := [Derived 0 2, Derived 2 6]\<rparr>)"
  by code_simp

end
